theory Spec2Isabelle
  imports Complex_Main "HOL-Library.Log_Nat" "HOL-Library.Sublist"
begin

section \<open>JavaScript numbers\<close>

text \<open>
  Every number of the program is an IEEE 754 binary64 value.  A finite value is represented
  by the rational it denotes; the two infinities and NaN are separate constructors.
  \<open>+0\<close> and \<open>-0\<close> are identified: the program divides only by \<open>naturalWidth\<close>,
  \<open>naturalHeight\<close>, an array length and the literal \<open>2\<close>, none of which is \<open>-0\<close>.
\<close>

datatype jsnum = Fin rat | PosInf | NegInf | NaN

text \<open>
  \<open>ilog2 q\<close> is the binary exponent of a positive rational: \<open>2 powi ilog2 q \<le> q < 2 powi (ilog2 q + 1)\<close>.
\<close>

definition ilog2 :: "rat \<Rightarrow> int" where
  "ilog2 q = (if 1 \<le> q then bitlen \<lfloor>q\<rfloor> - 1 else - bitlen (\<lceil>1 / q\<rceil> - 1))"

text \<open>Rounding to the nearest integer, ties to the even one.\<close>

definition rne :: "rat \<Rightarrow> int" where
  "rne x = (let f = \<lfloor>x\<rfloor>; d = x - of_int f
            in if d < 1 / 2 then f else if 1 / 2 < d then f + 1
               else if even f then f else f + 1)"

text \<open>
  \<open>fl q\<close> is the binary64 value of the exact result \<open>q\<close> in the default rounding mode
  (to nearest, ties to even): 53 significant bits, the spacing of the subnormal numbers
  \<open>2 powi - 1074\<close> at the bottom of the range, and an infinity once the rounded value reaches
  \<open>2 ^ 1024\<close>.
\<close>

definition fl :: "rat \<Rightarrow> jsnum" where
  "fl q = (if q = 0 then Fin 0
           else let e = max (ilog2 \<bar>q\<bar> - 52) (- 1074);
                    r = of_int (rne (q / 2 powi e)) * 2 powi e
                in if 2 ^ 1024 \<le> r then PosInf
                   else if r \<le> - (2 ^ 1024) then NegInf
                   else Fin r)"

fun sign_of :: "jsnum \<Rightarrow> rat" where
  "sign_of (Fin a) = sgn a"
| "sign_of PosInf = 1"
| "sign_of NegInf = - 1"
| "sign_of NaN = 0"

fun jneg :: "jsnum \<Rightarrow> jsnum" where
  "jneg (Fin a) = Fin (- a)"
| "jneg PosInf = NegInf"
| "jneg NegInf = PosInf"
| "jneg NaN = NaN"

text \<open>\<open>x * y\<close>\<close>

fun jmul :: "jsnum \<Rightarrow> jsnum \<Rightarrow> jsnum" where
  "jmul (Fin a) (Fin b) = fl (a * b)"
| "jmul NaN y = NaN"
| "jmul x NaN = NaN"
| "jmul x y = (if sign_of x * sign_of y = 0 then NaN
               else if 0 < sign_of x * sign_of y then PosInf else NegInf)"

text \<open>\<open>x / y\<close>; a zero divisor is \<open>+0\<close>.\<close>

fun jdiv :: "jsnum \<Rightarrow> jsnum \<Rightarrow> jsnum" where
  "jdiv (Fin a) (Fin b) =
     (if b = 0 then (if a = 0 then NaN else if 0 < a then PosInf else NegInf)
      else fl (a / b))"
| "jdiv NaN y = NaN"
| "jdiv x NaN = NaN"
| "jdiv (Fin a) y = Fin 0"
| "jdiv x (Fin b) = (if 0 \<le> b then x else jneg x)"
| "jdiv x y = NaN"

text \<open>\<open>x + y\<close> and \<open>x - y\<close>\<close>

fun jadd :: "jsnum \<Rightarrow> jsnum \<Rightarrow> jsnum" where
  "jadd (Fin a) (Fin b) = fl (a + b)"
| "jadd NaN y = NaN"
| "jadd x NaN = NaN"
| "jadd PosInf NegInf = NaN"
| "jadd NegInf PosInf = NaN"
| "jadd (Fin a) y = y"
| "jadd x y = x"

definition jsub :: "jsnum \<Rightarrow> jsnum \<Rightarrow> jsnum" where
  "jsub x y = jadd x (jneg y)"

text \<open>\<open>x < y\<close>; every comparison with NaN is false.\<close>

fun jlt :: "jsnum \<Rightarrow> jsnum \<Rightarrow> bool" where
  "jlt (Fin a) (Fin b) = (a < b)"
| "jlt NaN y = False"
| "jlt x NaN = False"
| "jlt PosInf y = False"
| "jlt x PosInf = True"
| "jlt x NegInf = False"
| "jlt NegInf y = True"

definition Math_min :: "jsnum \<Rightarrow> jsnum \<Rightarrow> jsnum" where
  "Math_min x y = (if x = NaN \<or> y = NaN then NaN else if jlt y x then y else x)"

fun Math_floor :: "jsnum \<Rightarrow> jsnum" where
  "Math_floor (Fin a) = Fin (of_int \<lfloor>a\<rfloor>)"
| "Math_floor x = x"

text \<open>\<open>Math.round\<close> rounds to the nearest integer and a tie towards \<open>+\<infinity>\<close>.\<close>

fun Math_round :: "jsnum \<Rightarrow> jsnum" where
  "Math_round (Fin a) = Fin (of_int \<lfloor>a + 1 / 2\<rfloor>)"
| "Math_round x = x"

text \<open>
  An array length, \<open>naturalWidth\<close>, \<open>naturalHeight\<close> and \<open>canvas.width\<close> are unsigned
  integers below \<open>2 ^ 32\<close>, which binary64 holds exactly.
\<close>

definition num_of_nat :: "nat \<Rightarrow> jsnum" where
  "num_of_nat n = Fin (of_nat n)"

section \<open>Field model (types.ts)\<close>

datatype field_type =
  TText | TDate | TNumber | TCheckbox | TCurrency | TSignature | TEmail | TPhone | TAddress | TImage

datatype field_status = Filled | Empty | Uncertain | Skipped

text \<open>
  \<open>boundingBox?: number[]\<close> is an optional array of any length; the compositor reads its
  first four entries.
\<close>

record FieldData =
  key :: string
  "value" :: string
  label :: string
  type :: field_type
  status :: field_status
  required :: bool
  example :: "string option"
  confidence :: "jsnum option"
  explanation :: "string option"
  boundingBox :: "jsnum list option"

section \<open>Component state of AnalysisView\<close>

datatype message_type = Success | Error

record view_state =
  cur_fields :: "FieldData list"   \<comment> \<open>the state variable \<open>fields\<close>\<close>
  isSaving :: bool
  saveMessage :: "(message_type \<times> string) option"
  isGeneratingDownload :: bool

subsection \<open>handleFieldChange\<close>

text \<open>
  \<open>prev.map(f => f.key === key ? { ...f, value: newValue, status: newValue ? 'filled' : 'empty' } : f)\<close>,
  then \<open>if (saveMessage) setSaveMessage(null)\<close>.  A string is truthy iff it is not empty.
\<close>

definition handleFieldChange :: "string \<Rightarrow> string \<Rightarrow> view_state \<Rightarrow> view_state" where
  "handleFieldChange k newValue st =
     st\<lparr>cur_fields :=
          map (\<lambda>f. if key f = k
                    then f\<lparr>value := newValue,
                           status := (if newValue \<noteq> [] then Filled else Empty)\<rparr>
                    else f) (cur_fields st),
        saveMessage := None\<rparr>"

subsection \<open>handleSkipField\<close>

definition handleSkipField :: "string \<Rightarrow> view_state \<Rightarrow> view_state" where
  "handleSkipField k st =
     st\<lparr>cur_fields :=
          map (\<lambda>f. if key f = k
                    then f\<lparr>status := (if status f = Skipped
                                        then (if value f \<noteq> [] then Filled else Empty)
                                        else Skipped)\<rparr>
                    else f) (cur_fields st)\<rparr>"

subsection \<open>handleSave\<close>

text \<open>The decimal rendering of an array length inside a template literal.\<close>

fun show_nat :: "nat \<Rightarrow> string" where
  "show_nat n =
     (if n < 10 then [char_of (48 + n)]
      else show_nat (n div 10) @ [char_of (48 + n mod 10)])"

declare show_nat.simps [simp del]

definition stillMissing :: "FieldData list \<Rightarrow> FieldData list" where
  "stillMissing fs = filter (\<lambda>f. required f \<and> status f = Empty) fs"

text \<open>
  The state once \<open>handleSave\<close> has run to its end.  The 800 ms pause before the validation
  is not modelled; the handler validates the \<open>fields\<close> of the render it was created in.
\<close>

definition handleSave :: "view_state \<Rightarrow> view_state" where
  "handleSave st =
     (let missing = stillMissing (cur_fields st)
      in st\<lparr>isSaving := False,
            saveMessage :=
              Some (if length missing > 0
                    then (Error, ''Validation Failed: '' @ show_nat (length missing)
                                   @ '' required field(s) are empty.'')
                    else (Success, ''Form validated and saved successfully!''))\<rparr>)"

subsection \<open>completionRate\<close>

text \<open>
  \<open>requiredFields.length > 0 ? Math.round((filledRequired / requiredFields.length) * 100) : 100\<close>
\<close>

definition requiredFields :: "FieldData list \<Rightarrow> FieldData list" where
  "requiredFields fs = filter required fs"

definition filledRequired :: "FieldData list \<Rightarrow> nat" where
  "filledRequired fs =
     length (filter (\<lambda>f. status f = Filled \<or> status f = Skipped) (requiredFields fs))"

definition completionRate :: "FieldData list \<Rightarrow> jsnum" where
  "completionRate fs =
     (if length (requiredFields fs) > 0
      then Math_round (jmul (jdiv (num_of_nat (filledRequired fs))
                                  (num_of_nat (length (requiredFields fs))))
                            (Fin 100))
      else Fin 100)"

section \<open>Overlay compositor (handleDownloadFilledDoc)\<close>

text \<open>
  The canvas is modelled by the sequence of calls made on it and on its 2D context, in
  program order.
\<close>

datatype canvas_op =
    SetCanvasSize nat nat
  | DrawBase
  | DrawImage string jsnum jsnum jsnum jsnum
  | SetFillStyle string
  | SetFont jsnum
  | SetTextBaseline string
  | FillText string jsnum jsnum jsnum

text \<open>
  What the browser and jsPDF decide: whether \<open>canvasRef.current\<close> and its 2D context exist,
  whether the base image loads (and then its natural size), the natural size of the image
  a field value decodes to (\<open>(0, 0)\<close> after \<open>onerror\<close>), whether \<open>toDataURL\<close> and the
  jsPDF calls return without throwing, and what \<open>String.prototype.toLowerCase\<close> returns
  (the case conversion of Unicode, of which nothing is assumed).
\<close>

record environment =
  canvasRef :: bool
  context2d :: bool
  loadBase :: "string \<Rightarrow> (nat \<times> nat) option"
  loadField :: "string \<Rightarrow> nat \<times> nat"
  packaging :: bool
  toLowerCase :: "string \<Rightarrow> string"

text \<open>An array entry that is missing reads as \<open>undefined\<close>, which is NaN in arithmetic.\<close>

definition entry :: "jsnum list \<Rightarrow> nat \<Rightarrow> jsnum" where
  "entry bb i = (if i < length bb then bb ! i else NaN)"

text \<open>\<open>Math.min(w / fieldImg.naturalWidth, h / fieldImg.naturalHeight)\<close>\<close>

definition scale :: "jsnum \<Rightarrow> jsnum \<Rightarrow> nat \<Rightarrow> nat \<Rightarrow> jsnum" where
  "scale w h naturalWidth naturalHeight =
     Math_min (jdiv w (num_of_nat naturalWidth)) (jdiv h (num_of_nat naturalHeight))"

definition drawW :: "jsnum \<Rightarrow> jsnum \<Rightarrow> nat \<Rightarrow> nat \<Rightarrow> jsnum" where
  "drawW w h naturalWidth naturalHeight =
     jmul (num_of_nat naturalWidth) (scale w h naturalWidth naturalHeight)"

definition drawH :: "jsnum \<Rightarrow> jsnum \<Rightarrow> nat \<Rightarrow> nat \<Rightarrow> jsnum" where
  "drawH w h naturalWidth naturalHeight =
     jmul (num_of_nat naturalHeight) (scale w h naturalWidth naturalHeight)"

definition drawX :: "jsnum \<Rightarrow> jsnum \<Rightarrow> jsnum \<Rightarrow> nat \<Rightarrow> nat \<Rightarrow> jsnum" where
  "drawX x w h naturalWidth naturalHeight =
     jadd x (jdiv (jsub w (drawW w h naturalWidth naturalHeight)) (Fin 2))"

definition drawY :: "jsnum \<Rightarrow> jsnum \<Rightarrow> jsnum \<Rightarrow> nat \<Rightarrow> nat \<Rightarrow> jsnum" where
  "drawY y w h naturalWidth naturalHeight =
     jadd y (jdiv (jsub h (drawH w h naturalWidth naturalHeight)) (Fin 2))"

text \<open>
  \<open>let fontSize = Math.floor(h * 0.6); if (fontSize < 12) fontSize = 12;
  if (fontSize > 60) fontSize = 60;\<close>  The literal \<open>0.6\<close> is the binary64 value nearest
  to \<open>6 / 10\<close>.
\<close>

definition fontSize :: "jsnum \<Rightarrow> jsnum" where
  "fontSize h =
     (let fontSize0 = Math_floor (jmul h (fl (6 / 10)));
          fontSize1 = (if jlt fontSize0 (Fin 12) then Fin 12 else fontSize0)
      in if jlt (Fin 60) fontSize1 then Fin 60 else fontSize1)"

text \<open>
  \<open>field.value.toLowerCase() === 'true' || field.value.toLowerCase() === 'yes' ||
  field.value.toLowerCase() === 'checked'\<close>
\<close>

definition isChecked :: "environment \<Rightarrow> string \<Rightarrow> bool" where
  "isChecked env v =
     (toLowerCase env v = ''true'' \<or> toLowerCase env v = ''yes'' \<or> toLowerCase env v = ''checked'')"

text \<open>The check mark U+2713, in UTF-8.\<close>

definition check_mark :: string where
  "check_mark = [CHR 0xE2, CHR 0x9C, CHR 0x93]"

text \<open>One iteration of \<open>for (const field of fields)\<close>, on a canvas of the given size.\<close>

definition drawField :: "environment \<Rightarrow> nat \<Rightarrow> nat \<Rightarrow> FieldData \<Rightarrow> canvas_op list" where
  "drawField env width height field =
     (case boundingBox field of
        None \<Rightarrow> []
      | Some bb \<Rightarrow>
          if value field = [] \<or> status field = Skipped then []
          else
            let ymin = entry bb 0; xmin = entry bb 1; ymax = entry bb 2; xmax = entry bb 3;
                x = jmul xmin (num_of_nat width);
                y = jmul ymin (num_of_nat height);
                w = jmul (jsub xmax xmin) (num_of_nat width);
                h = jmul (jsub ymax ymin) (num_of_nat height)
            in if type field = TImage \<or> type field = TSignature
               then (case loadField env (value field) of
                       (naturalWidth, naturalHeight) \<Rightarrow>
                         [DrawImage (value field)
                            (drawX x w h naturalWidth naturalHeight)
                            (drawY y w h naturalWidth naturalHeight)
                            (drawW w h naturalWidth naturalHeight)
                            (drawH w h naturalWidth naturalHeight)])
               else
                 let textY = jadd y (jdiv h (Fin 2));
                     textX = jadd x (Fin 5)
                 in [SetFillStyle ''#000000'', SetFont (fontSize h), SetTextBaseline ''middle'']
                    @ (if type field = TCheckbox
                       then (if isChecked env (value field)
                             then [FillText check_mark textX textY (jsub w (Fin 10))]
                             else [])
                       else [FillText (value field) textX textY (jsub w (Fin 10))]))"

fun drawFields :: "environment \<Rightarrow> nat \<Rightarrow> nat \<Rightarrow> FieldData list \<Rightarrow> canvas_op list" where
  "drawFields env width height [] = []"
| "drawFields env width height (field # rest) =
     drawField env width height field @ drawFields env width height rest"

datatype pdf_orientation = Landscape | Portrait

record pdf_file =
  orientation :: pdf_orientation
  pageWidth :: nat
  pageHeight :: nat
  page :: "canvas_op list"

datatype download_error =
  CanvasNotInitialized | NoCanvasContext | OriginalImageNotLoaded | PackagingFailed

text \<open>
  The body of the \<open>try\<close> block: the calls made on the canvas, and either the exception
  thrown or the document saved.
\<close>

definition tryGenerate ::
  "environment \<Rightarrow> string \<Rightarrow> FieldData list \<Rightarrow> canvas_op list \<times> (download_error + pdf_file)" where
  "tryGenerate env imageUrl fs =
     (if \<not> canvasRef env then ([], Inl CanvasNotInitialized)
      else if \<not> context2d env then ([], Inl NoCanvasContext)
      else case loadBase env imageUrl of
             None \<Rightarrow> ([], Inl OriginalImageNotLoaded)
           | Some (width, height) \<Rightarrow>
               let ops = [SetCanvasSize width height, DrawBase] @ drawFields env width height fs
               in if packaging env
                  then (ops, Inr \<lparr>orientation = (if width > height then Landscape else Portrait),
                                  pageWidth = width, pageHeight = height, page = ops\<rparr>)
                  else (ops, Inl PackagingFailed))"

text \<open>
  \<open>handleDownloadFilledDoc\<close>: the state after the handler has run, the calls it made on
  the canvas, and the document it saved, if any.  \<open>!imageUrl\<close> holds for a missing and for an
  empty URL.
\<close>

definition handleDownloadFilledDoc ::
  "environment \<Rightarrow> string option \<Rightarrow> view_state \<Rightarrow> view_state \<times> canvas_op list \<times> pdf_file option" where
  "handleDownloadFilledDoc env imageUrl st =
     (case imageUrl of
        None \<Rightarrow> (st, [], None)
      | Some url \<Rightarrow>
          if url = [] then (st, [], None)
          else (case tryGenerate env url (cur_fields st) of
                  (ops, Inr pdf) \<Rightarrow> (st\<lparr>isGeneratingDownload := False\<rparr>, ops, Some pdf)
                | (ops, Inl e) \<Rightarrow>
                    (st\<lparr>saveMessage := Some (Error, ''Failed to generate PDF. Please try again.''),
                        isGeneratingDownload := False\<rparr>, ops, None)))"

section \<open>Concrete inputs of the worked examples\<close>

definition plain_field :: "string \<Rightarrow> string \<Rightarrow> field_status \<Rightarrow> bool \<Rightarrow> FieldData" where
  "plain_field k v s r =
     \<lparr>key = k, value = v, label = k, type = TText, status = s, required = r,
      example = None, confidence = None, explanation = None, boundingBox = None\<rparr>"

definition store_of :: "FieldData list \<Rightarrow> view_state" where
  "store_of fs = \<lparr>cur_fields = fs, isSaving = False, saveMessage = None, isGeneratingDownload = False\<rparr>"

text \<open>
  The lower case of a text in UTF-8 whose capital letters are the ASCII ones or U+212A KELVIN
  SIGN (the bytes E2 84 AA, lower case \<open>k\<close>); every other byte is kept.
\<close>

fun lower_utf8 :: "string \<Rightarrow> string" where
  "lower_utf8 [] = []"
| "lower_utf8 (c # s) =
     (if c = CHR 0xE2 \<and> take 2 s = [CHR 0x84, CHR 0xAA] then CHR ''k'' # lower_utf8 (drop 2 s)
      else (if 65 \<le> (of_char c :: nat) \<and> (of_char c :: nat) \<le> 90
            then char_of (of_char c + 32 :: nat) else c) # lower_utf8 s)"

text \<open>
  A browser in which the base image fails to load, one in which every image loads with the
  natural size 50 by 50, and one in which every field image has the natural size 200 by 50.
\<close>

definition broken_base :: environment where
  "broken_base =
     \<lparr>canvasRef = True, context2d = True, loadBase = (\<lambda>url. None),
      loadField = (\<lambda>v. (0, 0)), packaging = True,
      toLowerCase = lower_utf8\<rparr>"

definition small_images :: environment where
  "small_images =
     \<lparr>canvasRef = True, context2d = True, loadBase = (\<lambda>url. Some (200, 200)),
      loadField = (\<lambda>v. (50, 50)), packaging = True,
      toLowerCase = lower_utf8\<rparr>"

definition wide_images :: environment where
  "wide_images =
     \<lparr>canvasRef = True, context2d = True, loadBase = (\<lambda>url. Some (200, 200)),
      loadField = (\<lambda>v. (200, 50)), packaging = True,
      toLowerCase = lower_utf8\<rparr>"

text \<open>A field with a bounding box over the upper left quarter of the page.\<close>

definition boxed_field :: "string \<Rightarrow> string \<Rightarrow> field_type \<Rightarrow> field_status \<Rightarrow> FieldData" where
  "boxed_field k v t s =
     \<lparr>key = k, value = v, label = k, type = t, status = s, required = True,
      example = None, confidence = None, explanation = None,
      boundingBox = Some [Fin 0, Fin 0, Fin (1 / 2), Fin (1 / 2)]\<rparr>"

text \<open>
  A browser in which the base image loads with the natural size 200 by 170, and a text field
  whose box, \<open>[0, 0, 0.3333333333333333, 0.5]\<close> as \<open>[ymin, xmin, ymax, xmax]\<close>, spans the upper
  third of the page; \<open>6004799503160661 / 2 ^ 54\<close> is the binary64 value of the literal
  \<open>0.3333333333333333\<close>.
\<close>

definition page_200_170 :: environment where
  "page_200_170 =
     \<lparr>canvasRef = True, context2d = True, loadBase = (\<lambda>url. Some (200, 170)),
      loadField = (\<lambda>v. (50, 50)), packaging = True,
      toLowerCase = lower_utf8\<rparr>"

definition third_field :: FieldData where
  "third_field =
     \<lparr>key = ''name'', value = ''Ada'', label = ''name'', type = TText, status = Filled,
      required = True, example = None, confidence = None, explanation = None,
      boundingBox = Some [Fin 0, Fin 0, Fin (6004799503160661 / 2 ^ 54), Fin (1 / 2)]\<rparr>"


section \<open>Notions of the specification\<close>

text \<open>
  The specification's words, to be compared with the code: a field is excluded from the
  composite when it lacks a bounding box, lacks a value, or is skipped.
\<close>

definition excluded :: "FieldData \<Rightarrow> bool" where
  "excluded f = (boundingBox f = None \<or> value f = [] \<or> status f = Skipped)"

text \<open>\<open>clamp(v, lo, hi)\<close>\<close>

definition clamp :: "int \<Rightarrow> int \<Rightarrow> int \<Rightarrow> int" where
  "clamp v lo hi = max lo (min v hi)"




section \<open>Properties of binary64 rounding\<close>

declare power_int_numeral [simp del] power_int_numeral_neg_numeral [simp del]

lemma two_powi_nat: "0 \<le> k \<Longrightarrow> (2::rat) powi k = 2 ^ nat k"
  by (simp add: power_int_def)

lemma two_powi_pos [simp]: "0 < (2::rat) powi k"
  by (simp add: zero_less_power_int)

lemma two_powi_Suc: "(2::rat) powi (k + 1) = 2 * 2 powi k"
  by (simp add: power_int_add)

lemma ilog2_bounds_ge1:
  assumes "1 \<le> q"
  shows "2 powi (ilog2 q) \<le> q \<and> q < 2 powi (ilog2 q + 1)"
proof -
  define n where "n = \<lfloor>q\<rfloor>"
  have n1: "1 \<le> n" using assms by (simp add: n_def le_floor_iff)
  then have bl: "1 \<le> bitlen n" by (simp add: bitlen_ge_iff_power)
  from bitlen_bounds[of n] n1
  have b1: "2 ^ nat (bitlen n - 1) \<le> n" and b2: "n + 1 \<le> 2 ^ nat (bitlen n)" by auto
  have il: "ilog2 q = bitlen n - 1" using assms by (simp add: ilog2_def n_def)
  have "(2::rat) ^ nat (bitlen n - 1) \<le> rat_of_int n"
    using b1 by simp
  moreover have "rat_of_int n \<le> q" by (simp add: n_def)
  ultimately have "(2::rat) ^ nat (bitlen n - 1) \<le> q" by (rule order_trans)
  then have lo: "2 powi (bitlen n - 1) \<le> q"
    using bl by (simp add: two_powi_nat)
  have "q < rat_of_int n + 1" using floor_correct[of q] by (simp add: n_def)
  moreover have "rat_of_int n + 1 \<le> 2 ^ nat (bitlen n)"
    using b2 by (metis of_int_le_numeral_power_cancel_iff of_int_add of_int_1)
  ultimately have "q < 2 ^ nat (bitlen n)" by (rule less_le_trans)
  then have hi: "q < 2 powi (bitlen n)"
    using bl by (simp add: two_powi_nat)
  from lo hi il show ?thesis by simp
qed

lemma ilog2_bounds_lt1:
  assumes "0 < q" "q < 1"
  shows "2 powi (ilog2 q) \<le> q \<and> q < 2 powi (ilog2 q + 1)"
proof -
  define m where "m = \<lceil>1 / q\<rceil> - 1"
  have inv: "1 < 1 / q" using assms by simp
  then have m1: "1 \<le> m" unfolding m_def by (simp add: less_ceiling_iff)
  then have bl: "1 \<le> bitlen m" by (simp add: bitlen_ge_iff_power)
  from bitlen_bounds[of m] m1
  have b1: "2 ^ nat (bitlen m - 1) \<le> m" and b2: "m + 1 \<le> 2 ^ nat (bitlen m)" by auto
  have il: "ilog2 q = - bitlen m" using assms by (simp add: ilog2_def m_def)
  have up: "1 / q \<le> rat_of_int (m + 1)" by (simp add: m_def)
  have lowr: "rat_of_int m < 1 / q" unfolding m_def
    using ceiling_correct[of "1 / q"] by simp
  have "rat_of_int (m + 1) \<le> 2 ^ nat (bitlen m)"
    using b2 by (metis of_int_le_numeral_power_cancel_iff)
  with up have "1 / q \<le> 2 ^ nat (bitlen m)" by (rule order_trans)
  then have "1 \<le> 2 ^ nat (bitlen m) * q"
    using assms(1) by (simp add: field_simps)
  then have lo: "2 powi (- bitlen m) \<le> q"
    using bl by (simp add: power_int_minus two_powi_nat field_simps)
  have "(2::rat) ^ nat (bitlen m - 1) \<le> rat_of_int m"
    using b1 by simp
  with lowr have "2 ^ nat (bitlen m - 1) < 1 / q" by linarith
  then have "q < 1 / 2 ^ nat (bitlen m - 1)"
    using assms(1) by (simp add: field_simps)
  moreover have "(2::rat) powi (- bitlen m + 1) = 1 / 2 ^ nat (bitlen m - 1)"
  proof -
    have "- bitlen m + 1 = - (bitlen m - 1)" by simp
    then show ?thesis using bl by (simp only: power_int_minus_divide two_powi_nat)
  qed
  ultimately have hi: "q < 2 powi (- bitlen m + 1)"
    by (simp only:)
  from lo hi il show ?thesis by simp
qed

lemma ilog2_bounds:
  assumes "0 < q"
  shows "2 powi (ilog2 q) \<le> q" and "q < 2 powi (ilog2 q + 1)"
  using ilog2_bounds_ge1[of q] ilog2_bounds_lt1[of q] assms by (cases "1 \<le> q"; simp)+

lemma ilog2_unique:
  assumes "2 powi k \<le> q" "q < 2 powi (k + 1)"
  shows "ilog2 q = k"
proof -
  have q0: "0 < q" using assms(1) two_powi_pos[of k] by linarith
  note b = ilog2_bounds[OF q0]
  have "(2::rat) powi k < 2 powi (ilog2 q + 1)" using assms(1) b(2) by linarith
  then have "k < ilog2 q + 1"
    by (metis power_int_increasing not_less one_le_numeral)
  moreover have "(2::rat) powi (ilog2 q) < 2 powi (k + 1)" using assms(2) b(1) by linarith
  then have "ilog2 q < k + 1"
    by (metis power_int_increasing not_less one_le_numeral)
  ultimately show ?thesis by simp
qed

lemma rne_error: "\<bar>of_int (rne x) - x\<bar> \<le> 1 / 2"
proof -
  have "of_int \<lfloor>x\<rfloor> \<le> x" "x < of_int \<lfloor>x\<rfloor> + 1"
    using floor_correct[of x] by simp_all
  then show ?thesis by (auto simp add: rne_def Let_def)
qed

lemma rne_of_int [simp]: "rne (of_int n) = n"
  by (simp add: rne_def)

lemma rne_le: "x \<le> of_int n \<Longrightarrow> rne x \<le> n"
proof -
  assume a: "x \<le> of_int n"
  show ?thesis
  proof (cases "x = of_int n")
    case True then show ?thesis by simp
  next
    case False
    with a have "x < of_int n" by simp
    then have "\<lfloor>x\<rfloor> < n" by (simp add: floor_less_iff)
    then show ?thesis by (auto simp add: rne_def Let_def)
  qed
qed

lemma rne_ge: "of_int n \<le> x \<Longrightarrow> n \<le> rne x"
proof -
  assume a: "of_int n \<le> x"
  then have "n \<le> \<lfloor>x\<rfloor>" by (simp add: le_floor_iff)
  then show ?thesis by (auto simp add: rne_def Let_def)
qed


lemma fl_unfold:
  assumes "q \<noteq> 0"
  shows "fl q = (let e = max (ilog2 \<bar>q\<bar> - 52) (- 1074);
                    r = of_int (rne (q / 2 powi e)) * 2 powi e
                in if 2 ^ 1024 \<le> r then PosInf
                   else if r \<le> - (2 ^ 1024) then NegInf
                   else Fin r)"
  using assms by (simp add: fl_def)

lemma two_powi_le_1023:
  assumes "k \<le> 1023"
  shows "(2::rat) powi k \<le> 2 ^ 1023"
proof -
  have "(2::rat) powi k \<le> 2 powi 1023"
    using assms by (intro power_int_increasing) simp_all
  then show ?thesis by (simp only: power_int_numeral)
qed

lemma fl_error_gen:
  assumes "q \<noteq> 0" "\<bar>q\<bar> < 2 ^ 1023"
  defines "e \<equiv> max (ilog2 \<bar>q\<bar> - 52) (- 1074)"
  shows "fl q = Fin (of_int (rne (q / 2 powi e)) * 2 powi e)
       \<and> \<bar>of_int (rne (q / 2 powi e)) * 2 powi e - q\<bar> \<le> 2 powi e / 2"
proof -
  define r where "r = rat_of_int (rne (q / 2 powi e)) * 2 powi e"
  have q0: "0 < \<bar>q\<bar>" using assms(1) by simp
  have "r - q = (rat_of_int (rne (q / 2 powi e)) - q / 2 powi e) * 2 powi e"
    by (simp add: r_def field_simps)
  then have "\<bar>r - q\<bar> = \<bar>rat_of_int (rne (q / 2 powi e)) - q / 2 powi e\<bar> * 2 powi e"
    by (simp add: abs_mult)
  also have "\<dots> \<le> (1 / 2) * 2 powi e"
    by (intro mult_right_mono rne_error) simp
  finally have err: "\<bar>r - q\<bar> \<le> 2 powi e / 2" by simp
  have "\<bar>q\<bar> < 2 powi 1023"
    using assms(2) by (simp only: power_int_numeral)
  with ilog2_bounds(1)[OF q0] have "(2::rat) powi (ilog2 \<bar>q\<bar>) < 2 powi 1023"
    by (rule le_less_trans)
  then have "ilog2 \<bar>q\<bar> < 1023"
    by (metis power_int_increasing not_less one_le_numeral)
  then have "e \<le> 1023" by (simp add: e_def)
  then have "(2::rat) powi e \<le> 2 ^ 1023" by (rule two_powi_le_1023)
  with err assms(2) have "\<bar>r\<bar> < 2 ^ 1024" by (simp add: abs_if split: if_splits)
  then have "\<not> 2 ^ 1024 \<le> r" "\<not> r \<le> - (2 ^ 1024)" by (simp_all add: abs_if split: if_splits)
  then have "fl q = Fin r"
    using assms(1) by (simp add: fl_unfold Let_def e_def r_def)
  with err show ?thesis by (simp add: r_def)
qed

lemma fl_rel_error:
  assumes "2 powi (- 1022) \<le> \<bar>q\<bar>" "\<bar>q\<bar> < 2 ^ 1023"
  shows "\<exists>r. fl q = Fin r \<and> \<bar>r - q\<bar> \<le> \<bar>q\<bar> / 2 ^ 53"
proof -
  have q0: "0 < \<bar>q\<bar>" using assms(1) two_powi_pos[of "- 1022"] by linarith
  then have qn: "q \<noteq> 0" by simp
  define k where "k = ilog2 \<bar>q\<bar>"
  define R where "R = rat_of_int (rne (q / 2 powi (k - 52))) * 2 powi (k - 52)"
  have "(2::rat) powi (- 1022) < 2 powi (k + 1)"
    using ilog2_bounds(2)[OF q0] assms(1) unfolding k_def by (rule le_less_trans[rotated])
  then have "- 1022 < k + 1"
    by (metis power_int_increasing not_less one_le_numeral)
  then have e: "max (k - 52) (- 1074) = k - 52" by simp
  have "(2::rat) powi (k - 52) = 2 powi k / 2 powi 52"
    by (rule power_int_diff) simp
  also have "\<dots> = 2 powi k / 2 ^ 52"
    by (simp only: power_int_numeral)
  also have "\<dots> \<le> \<bar>q\<bar> / 2 ^ 52"
    using ilog2_bounds(1)[OF q0] unfolding k_def by (intro divide_right_mono) simp_all
  finally have X: "(2::rat) powi (k - 52) \<le> \<bar>q\<bar> / 2 ^ 52" .
  have Y: "(2::rat) powi (k - 52) / 2 \<le> \<bar>q\<bar> / 2 ^ 53"
    using X by simp
  have "fl q = Fin R \<and> \<bar>R - q\<bar> \<le> 2 powi (k - 52) / 2"
    using fl_error_gen[OF qn assms(2)] unfolding R_def k_def[symmetric] e by (simp only:)
  then have "fl q = Fin R" "\<bar>R - q\<bar> \<le> \<bar>q\<bar> / 2 ^ 53"
    using Y by (blast, linarith)
  then show ?thesis by blast
qed

lemma fl_abs_error:
  assumes "\<bar>q\<bar> < 2 ^ 1023"
  shows "\<exists>r. fl q = Fin r \<and> \<bar>r - q\<bar> \<le> \<bar>q\<bar> / 2 ^ 53 + 2 powi (- 1075)"
proof (cases "2 powi (- 1022) \<le> \<bar>q\<bar>")
  case True
  from fl_rel_error[OF True assms] obtain r where "fl q = Fin r" "\<bar>r - q\<bar> \<le> \<bar>q\<bar> / 2 ^ 53"
    by blast
  moreover have "0 < (2::rat) powi (- 1075)" by (rule two_powi_pos)
  ultimately show ?thesis by (intro exI[of _ r]) linarith
next
  case False
  show ?thesis
  proof (cases "q = 0")
    case True
    then show ?thesis by (simp add: fl_def)
  next
    case qn: False
    then have q0: "0 < \<bar>q\<bar>" by simp
    define k where "k = ilog2 \<bar>q\<bar>"
    have "(2::rat) powi k < 2 powi (- 1022)"
      using ilog2_bounds(1)[OF q0] False by (simp add: k_def)
    then have "k < - 1022"
      by (metis power_int_increasing not_less one_le_numeral)
    then have e: "max (k - 52) (- 1074) = - 1074" by simp
    have half: "(2::rat) powi (- 1074) / 2 = 2 powi (- 1075)"
      using two_powi_Suc[of "- 1075"] by simp
    have "fl q = Fin (of_int (rne (q / 2 powi (- 1074))) * 2 powi (- 1074))
        \<and> \<bar>of_int (rne (q / 2 powi (- 1074))) * 2 powi (- 1074) - q\<bar> \<le> 2 powi (- 1074) / 2"
      using fl_error_gen[OF qn assms] e unfolding k_def by (simp only:)
    moreover have "0 \<le> \<bar>q\<bar> / 2 ^ 53" by simp
    ultimately show ?thesis
      unfolding half
      by (intro exI[of _ "of_int (rne (q / 2 powi (- 1074))) * 2 powi (- 1074)"]) linarith
  qed
qed

lemma fl_le_nat:
  assumes "0 \<le> q" "q \<le> of_nat N" "N < 2 ^ 53"
  shows "\<exists>r. fl q = Fin r \<and> 0 \<le> r \<and> r \<le> of_nat N"
proof (cases "q = 0")
  case True
  then show ?thesis by (simp add: fl_def)
next
  case qn: False
  then have q0: "0 < \<bar>q\<bar>" and qa: "\<bar>q\<bar> = q" using assms(1) by simp_all
  define k where "k = ilog2 \<bar>q\<bar>"
  define e where "e = max (k - 52) (- 1074)"
  define r where "r = rat_of_int (rne (q / 2 powi e)) * 2 powi e"
  have "rat_of_nat N < 2 ^ 53" using assms(3)
    by (metis of_nat_less_numeral_power_cancel_iff)
  then have N53: "rat_of_nat N < 2 powi 53" by (simp only: power_int_numeral)
  have "(2::rat) powi k < 2 powi 53"
    using ilog2_bounds(1)[OF q0] assms(2) N53 qa by (simp add: k_def)
  then have "k < 53"
    by (metis power_int_increasing not_less one_le_numeral)
  then have e0: "e \<le> 0" by (simp add: e_def)
  have pw: "(2::rat) powi e = 1 / 2 ^ nat (- e)"
    using e0 by (simp add: power_int_def field_simps)
  have "rat_of_nat N / 2 powi e = rat_of_int (int N * 2 ^ nat (- e))"
    by (simp add: pw)
  moreover have "q / 2 powi e \<le> rat_of_nat N / 2 powi e"
    using assms(2) by (simp add: divide_right_mono)
  ultimately have "rne (q / 2 powi e) \<le> int N * 2 ^ nat (- e)"
    by (intro rne_le) simp
  then have "rat_of_int (rne (q / 2 powi e)) \<le> rat_of_int (int N * 2 ^ nat (- e))"
    by (simp only: of_int_le_iff)
  then have "r \<le> rat_of_int (int N * 2 ^ nat (- e)) * 2 powi e"
    unfolding r_def by (intro mult_right_mono) simp_all
  then have rN: "r \<le> of_nat N" by (simp add: pw)
  have "rat_of_int 0 \<le> q / 2 powi e" using assms(1) by simp
  then have "0 \<le> rne (q / 2 powi e)" by (rule rne_ge)
  then have r0: "0 \<le> r" by (simp add: r_def)
  have "r < 2 ^ 1024"
  proof -
    have "(2::rat) ^ 53 \<le> 2 ^ 1024" by (intro power_increasing) simp_all
    with rN \<open>rat_of_nat N < 2 ^ 53\<close> show ?thesis by linarith
  qed
  with r0 have "\<not> 2 ^ 1024 \<le> r" "\<not> r \<le> - (2 ^ 1024)" by simp_all
  then have "fl q = Fin r"
    using qn by (simp add: fl_unfold Let_def e_def r_def k_def)
  with r0 rN show ?thesis by blast
qed

lemma fl_eval:
  assumes "2 powi k \<le> \<bar>q\<bar>" "\<bar>q\<bar> < 2 powi (k + 1)" "- 1022 \<le> k" "k \<le> 1022"
  shows "fl q = Fin (of_int (rne (q / 2 powi (k - 52))) * 2 powi (k - 52))"
proof -
  have q0: "0 < \<bar>q\<bar>" using assms(1) two_powi_pos[of k] by linarith
  then have qn: "q \<noteq> 0" by simp
  have k: "ilog2 \<bar>q\<bar> = k" using assms(1,2) by (rule ilog2_unique)
  have "(2::rat) powi (k + 1) \<le> 2 ^ 1023"
    using assms(4) by (intro two_powi_le_1023) simp
  with assms(2) have "\<bar>q\<bar> < 2 ^ 1023" by linarith
  moreover have "max (k - 52) (- 1074) = k - 52" using assms(3) by simp
  ultimately show ?thesis
    using fl_error_gen[OF qn, THEN conjunct1] k by (simp only:)
qed

lemma floor_rat_numeral: "\<lfloor>numeral a / numeral b :: rat\<rfloor> = numeral a div numeral b"
  using floor_divide_of_int_eq[of "numeral a" "numeral b", where ?'a = rat] by simp

lemma fl_normal:
  assumes "1 / 2 ^ 1000 \<le> \<bar>q\<bar>" "\<bar>q\<bar> \<le> 2 ^ 1000"
  shows "\<exists>r. fl q = Fin r \<and> \<bar>r - q\<bar> \<le> \<bar>q\<bar> / 2 ^ 53"
proof -
  have "(2::rat) powi (- 1022) \<le> 2 powi (- 1000)"
    by (intro power_int_increasing) simp_all
  also have "\<dots> = 1 / 2 ^ 1000"
    by (simp add: power_int_numeral_neg_numeral field_simps)
  finally have "2 powi (- 1022) \<le> \<bar>q\<bar>" using assms(1) by linarith
  moreover have "(2::rat) ^ 1000 < 2 ^ 1023" by simp
  then have "\<bar>q\<bar> < 2 ^ 1023" using assms(2) by linarith
  ultimately show ?thesis by (rule fl_rel_error)
qed

lemma rne_near:
  assumes "\<bar>x - rat_of_int M\<bar> < 1 / 2"
  shows "rne x = M"
proof (cases "rat_of_int M \<le> x")
  case True
  then have "\<lfloor>x\<rfloor> = M" using assms by (intro floor_unique) linarith+
  then show ?thesis using assms True by (simp add: rne_def Let_def)
next
  case False
  have e: "rat_of_int (M - 1) = rat_of_int M - 1" by simp
  have "rat_of_int (M - 1) \<le> x" "x < rat_of_int (M - 1) + 1"
    using assms False unfolding e by linarith+
  then have f: "\<lfloor>x\<rfloor> = M - 1" by (rule floor_unique)
  have "1 / 2 < x - rat_of_int (M - 1)" using assms False unfolding e by linarith
  then show ?thesis using f by (simp add: rne_def Let_def)
qed


section \<open>Field state store: value edits\<close>

lemma cur_fields_handleFieldChange:
  "cur_fields (handleFieldChange k v st) =
     map (\<lambda>f. if key f = k then f\<lparr>value := v, status := (if v \<noteq> [] then Filled else Empty)\<rparr> else f)
       (cur_fields st)"
  by (simp add: handleFieldChange_def)

text \<open>
  C1, as the code has it: a value edit replaces the value of every field carrying the key
  and recomputes its status from the new value alone, whatever the status was before, so a
  skipped field is un-skipped by the edit.  Every other attribute of the field and every
  other field stay as they were.
\<close>

theorem C1_setValue_recomputes_status:
  assumes "i < length (cur_fields st)"
  shows "length (cur_fields (handleFieldChange k v st)) = length (cur_fields st)
       \<and> (key (cur_fields st ! i) = k \<longrightarrow>
            cur_fields (handleFieldChange k v st) ! i =
              (cur_fields st ! i)\<lparr>value := v, status := (if v = [] then Empty else Filled)\<rparr>)
       \<and> (key (cur_fields st ! i) \<noteq> k \<longrightarrow>
            cur_fields (handleFieldChange k v st) ! i = cur_fields st ! i)"
  using assms by (simp add: cur_fields_handleFieldChange)

theorem C1_setValue_recomputes_status_witness:
  "cur_fields (handleFieldChange ''name'' ''Ada''
      (store_of [plain_field ''name'' '''' Empty True, plain_field ''city'' ''Oslo'' Filled False])) ! 0
     = plain_field ''name'' ''Ada'' Filled True
   \<and> cur_fields (handleFieldChange ''name'' ''Ada''
      (store_of [plain_field ''name'' '''' Empty True, plain_field ''city'' ''Oslo'' Filled False])) ! 1
     = plain_field ''city'' ''Oslo'' Filled False
   \<and> cur_fields (handleFieldChange ''agree'' ''true''
      (store_of [plain_field ''agree'' ''false'' Skipped True])) ! 0
     = plain_field ''agree'' ''true'' Filled True"
  using C1_setValue_recomputes_status
          [of 0 "store_of [plain_field ''name'' '''' Empty True, plain_field ''city'' ''Oslo'' Filled False]"
              "''name''" "''Ada''"]
        C1_setValue_recomputes_status
          [of 1 "store_of [plain_field ''name'' '''' Empty True, plain_field ''city'' ''Oslo'' Filled False]"
              "''name''" "''Ada''"]
        C1_setValue_recomputes_status
          [of 0 "store_of [plain_field ''agree'' ''false'' Skipped True]" "''agree''" "''true''"]
  by (simp add: store_of_def plain_field_def)

text \<open>
  C1 as stated fails: editing the value of a skipped field does not leave its status
  untouched.  The field \<open>agree\<close> is skipped; after \<open>handleFieldChange ''agree'' ''true''\<close>
  (what a click on the row of a skipped checkbox calls) its status is \<open>filled\<close>.
\<close>

theorem C1_skipped_status_overwritten:
  "map status (cur_fields (store_of [plain_field ''agree'' ''false'' Skipped True])) = [Skipped]
   \<and> map status (cur_fields (handleFieldChange ''agree'' ''true''
                           (store_of [plain_field ''agree'' ''false'' Skipped True]))) = [Filled]"
  by (simp add: handleFieldChange_def store_of_def plain_field_def)

text \<open>
  C8: for a key that no field carries, the value edit changes nothing in the field list
  (same fields, same number, same order), and it reports nothing: the save message is
  cleared, not set, and the two progress flags keep their values.
\<close>

theorem C8_setValue_unknown_key_noop:
  assumes "\<forall>f \<in> set (cur_fields st). key f \<noteq> k"
  shows "cur_fields (handleFieldChange k v st) = cur_fields st
       \<and> saveMessage (handleFieldChange k v st) = None
       \<and> isSaving (handleFieldChange k v st) = isSaving st
       \<and> isGeneratingDownload (handleFieldChange k v st) = isGeneratingDownload st"
proof -
  have "map (\<lambda>f. if key f = k then f\<lparr>value := v, status := (if v \<noteq> [] then Filled else Empty)\<rparr> else f)
          (cur_fields st) = map (\<lambda>f. f) (cur_fields st)"
    using assms by (intro map_cong) auto
  then have "cur_fields (handleFieldChange k v st) = cur_fields st"
    by (simp add: cur_fields_handleFieldChange)
  then show ?thesis
    by (simp add: handleFieldChange_def)
qed

theorem C8_setValue_unknown_key_noop_witness:
  "cur_fields (handleFieldChange ''zip'' ''0150'' (store_of [plain_field ''name'' ''Ada'' Filled True]))
       = [plain_field ''name'' ''Ada'' Filled True]
   \<and> saveMessage (handleFieldChange ''zip'' ''0150'' (store_of [plain_field ''name'' ''Ada'' Filled True]))
       = None"
  using C8_setValue_unknown_key_noop
          [of "store_of [plain_field ''name'' ''Ada'' Filled True]" "''zip''" "''0150''"]
  by (simp add: store_of_def plain_field_def)

section \<open>Field state store: skipping\<close>

lemma cur_fields_handleSkipField_twice:
  "cur_fields (handleSkipField k (handleSkipField k st)) =
     map (\<lambda>f. if key f = k \<and> status f \<noteq> Skipped
               then f\<lparr>status := (if value f \<noteq> [] then Filled else Empty)\<rparr> else f) (cur_fields st)"
  by (simp add: handleSkipField_def comp_def cong: map_cong)

text \<open>
  C2, as the code has it: the first toggle of a field that is not skipped forgets its
  status, and the second one derives the status from the value.  Two toggles therefore
  restore the status exactly of the fields that were skipped, or whose status already
  agreed with their value (filled with a value, empty without); a field that was
  \<open>uncertain\<close> comes back as \<open>filled\<close> or \<open>empty\<close>.
\<close>

theorem C2_toggleSkip_twice:
  "cur_fields (handleSkipField k (handleSkipField k st)) =
     map (\<lambda>f. if key f = k \<and> status f \<noteq> Skipped
               then f\<lparr>status := (if value f = [] then Empty else Filled)\<rparr> else f) (cur_fields st)
   \<and> ((\<forall>f \<in> set (cur_fields st). key f = k \<longrightarrow>
          status f = Skipped \<or> status f = (if value f = [] then Empty else Filled))
        \<longrightarrow> handleSkipField k (handleSkipField k st) = st)"
proof (intro conjI impI)
  show eq: "cur_fields (handleSkipField k (handleSkipField k st)) =
           map (\<lambda>f. if key f = k \<and> status f \<noteq> Skipped
                     then f\<lparr>status := (if value f = [] then Empty else Filled)\<rparr> else f) (cur_fields st)"
    by (simp add: cur_fields_handleSkipField_twice cong: if_cong)
  assume ok: "\<forall>f \<in> set (cur_fields st). key f = k \<longrightarrow>
            status f = Skipped \<or> status f = (if value f = [] then Empty else Filled)"
  have "map (\<lambda>f. if key f = k \<and> status f \<noteq> Skipped
                     then f\<lparr>status := (if value f = [] then Empty else Filled)\<rparr> else f) (cur_fields st)
        = map (\<lambda>f. f) (cur_fields st)"
    using ok by (intro map_cong) auto
  with eq have "cur_fields (handleSkipField k (handleSkipField k st)) = cur_fields st"
    by simp
  moreover have "view_state.more (handleSkipField k (handleSkipField k st)) = view_state.more st"
    and "isSaving (handleSkipField k (handleSkipField k st)) = isSaving st"
    and "saveMessage (handleSkipField k (handleSkipField k st)) = saveMessage st"
    and "isGeneratingDownload (handleSkipField k (handleSkipField k st)) = isGeneratingDownload st"
    by (simp_all add: handleSkipField_def)
  ultimately show "handleSkipField k (handleSkipField k st) = st"
    by (intro view_state.equality) simp_all
qed

theorem C2_toggleSkip_twice_witness:
  "handleSkipField ''name'' (handleSkipField ''name''
        (store_of [plain_field ''name'' ''Ada'' Filled True, plain_field ''zip'' '''' Skipped True]))
     = store_of [plain_field ''name'' ''Ada'' Filled True, plain_field ''zip'' '''' Skipped True]"
  using C2_toggleSkip_twice
          [of "''name''"
              "store_of [plain_field ''name'' ''Ada'' Filled True, plain_field ''zip'' '''' Skipped True]"]
  by (simp add: store_of_def plain_field_def)

text \<open>
  C2 as stated fails for the initial status \<open>uncertain\<close>: two toggles with the value left
  alone end in \<open>filled\<close>.
\<close>

theorem C2_uncertain_not_restored:
  "map status (cur_fields (store_of [plain_field ''dob'' ''1990'' Uncertain True])) = [Uncertain]
   \<and> map status (cur_fields (handleSkipField ''dob'' (handleSkipField ''dob''
                           (store_of [plain_field ''dob'' ''1990'' Uncertain True])))) = [Filled]
   \<and> map value (cur_fields (handleSkipField ''dob'' (handleSkipField ''dob''
                           (store_of [plain_field ''dob'' ''1990'' Uncertain True])))) = [''1990'']"
  by (simp add: handleSkipField_def store_of_def plain_field_def)

section \<open>Field state store: validation\<close>

lemma show_nat_1: "show_nat (Suc 0) = ''1''"
  by code_simp

text \<open>
  C3: the validation pass of \<open>handleSave\<close> fails exactly when some field is required and
  empty; the offending list \<open>stillMissing\<close> holds exactly those fields, in their order, and
  the count in the message is their number.  The field list itself is left as it was.
  With one required empty field and one required filled field, one field is reported.
\<close>

theorem C3_validate:
  "set (stillMissing (cur_fields st)) = {f \<in> set (cur_fields st). required f \<and> status f = Empty}
   \<and> subseq (stillMissing (cur_fields st)) (cur_fields st)
   \<and> length (stillMissing (cur_fields st)) =
       card {i. i < length (cur_fields st) \<and> required (cur_fields st ! i)
                \<and> status (cur_fields st ! i) = Empty}
   \<and> ((\<exists>f \<in> set (cur_fields st). required f \<and> status f = Empty) \<longrightarrow>
        saveMessage (handleSave st) =
          Some (Error, ''Validation Failed: '' @ show_nat (length (stillMissing (cur_fields st)))
                         @ '' required field(s) are empty.''))
   \<and> (\<not> (\<exists>f \<in> set (cur_fields st). required f \<and> status f = Empty) \<longrightarrow>
        saveMessage (handleSave st) = Some (Success, ''Form validated and saved successfully!''))
   \<and> cur_fields (handleSave st) = cur_fields st
   \<and> (cur_fields st = [f1, f2] \<and> required f1 \<and> status f1 = Empty
        \<and> required f2 \<and> status f2 = Filled \<longrightarrow>
        stillMissing (cur_fields st) = [f1]
        \<and> saveMessage (handleSave st) =
            Some (Error, ''Validation Failed: 1 required field(s) are empty.''))"
proof -
  have nonempty: "(0 < length (stillMissing (cur_fields st))) =
      (\<exists>f \<in> set (cur_fields st). required f \<and> status f = Empty)"
    by (auto simp add: stillMissing_def filter_empty_conv)
  have "set (stillMissing (cur_fields st)) = {f \<in> set (cur_fields st). required f \<and> status f = Empty}"
    by (auto simp add: stillMissing_def)
  moreover have "subseq (stillMissing (cur_fields st)) (cur_fields st)"
    by (simp add: stillMissing_def)
  moreover have "length (stillMissing (cur_fields st)) =
       card {i. i < length (cur_fields st) \<and> required (cur_fields st ! i)
                \<and> status (cur_fields st ! i) = Empty}"
    by (simp add: stillMissing_def length_filter_conv_card)
  moreover have "(\<exists>f \<in> set (cur_fields st). required f \<and> status f = Empty) \<longrightarrow>
        saveMessage (handleSave st) =
          Some (Error, ''Validation Failed: '' @ show_nat (length (stillMissing (cur_fields st)))
                         @ '' required field(s) are empty.'')"
    using nonempty by (simp add: handleSave_def Let_def)
  moreover have "\<not> (\<exists>f \<in> set (cur_fields st). required f \<and> status f = Empty) \<longrightarrow>
        saveMessage (handleSave st) = Some (Success, ''Form validated and saved successfully!'')"
    using nonempty by (simp add: handleSave_def Let_def)
  moreover have "cur_fields (handleSave st) = cur_fields st"
    by (simp add: handleSave_def Let_def)
  moreover have "cur_fields st = [f1, f2] \<and> required f1 \<and> status f1 = Empty
        \<and> required f2 \<and> status f2 = Filled \<longrightarrow>
        stillMissing (cur_fields st) = [f1]
        \<and> saveMessage (handleSave st) =
            Some (Error, ''Validation Failed: 1 required field(s) are empty.'')"
    by (simp add: handleSave_def Let_def stillMissing_def show_nat_1)
  ultimately show ?thesis by (intro conjI)
qed

theorem C3_validate_witness:
  "stillMissing [plain_field ''name'' '''' Empty True, plain_field ''city'' ''Oslo'' Filled True]
     = [plain_field ''name'' '''' Empty True]
   \<and> saveMessage (handleSave
        (store_of [plain_field ''name'' '''' Empty True, plain_field ''city'' ''Oslo'' Filled True]))
     = Some (Error, ''Validation Failed: 1 required field(s) are empty.'')
   \<and> saveMessage (handleSave (store_of [plain_field ''city'' ''Oslo'' Filled True]))
     = Some (Success, ''Form validated and saved successfully!'')"
proof -
  let ?a = "plain_field ''name'' '''' Empty True"
  let ?b = "plain_field ''city'' ''Oslo'' Filled True"
  have "cur_fields (store_of [?a, ?b]) = [?a, ?b] \<and> required ?a \<and> status ?a = Empty
        \<and> required ?b \<and> status ?b = Filled"
    by (simp add: store_of_def plain_field_def)
  with C3_validate[of "store_of [?a, ?b]" ?a ?b]
  have "stillMissing (cur_fields (store_of [?a, ?b])) = [?a]
        \<and> saveMessage (handleSave (store_of [?a, ?b])) =
            Some (Error, ''Validation Failed: 1 required field(s) are empty.'')"
    by blast
  moreover have "\<not> (\<exists>f \<in> set (cur_fields (store_of [?b])). required f \<and> status f = Empty)"
    by (simp add: store_of_def plain_field_def)
  with C3_validate[of "store_of [?b]"]
  have "saveMessage (handleSave (store_of [?b])) = Some (Success, ''Form validated and saved successfully!'')"
    by blast
  ultimately show ?thesis by (simp add: store_of_def)
qed

section \<open>Overlay compositor: failure of the base image, excluded fields\<close>

text \<open>
  C6: when the base image does not load, \<open>handleDownloadFilledDoc\<close> makes no call on the
  canvas at all (so no field is drawn), saves no document, reports the failure in the save
  message, and leaves the field list as it was.
\<close>

theorem C6_base_image_decode_failure:
  assumes "url \<noteq> []" and "loadBase env url = None"
  shows "fst (snd (handleDownloadFilledDoc env (Some url) st)) = []
       \<and> snd (snd (handleDownloadFilledDoc env (Some url) st)) = None
       \<and> saveMessage (fst (handleDownloadFilledDoc env (Some url) st)) =
           Some (Error, ''Failed to generate PDF. Please try again.'')
       \<and> cur_fields (fst (handleDownloadFilledDoc env (Some url) st)) = cur_fields st
       \<and> isGeneratingDownload (fst (handleDownloadFilledDoc env (Some url) st)) = False"
  using assms by (simp add: handleDownloadFilledDoc_def tryGenerate_def)

theorem C6_base_image_decode_failure_witness:
  "fst (snd (handleDownloadFilledDoc broken_base (Some ''blob:scan'')
              (store_of [boxed_field ''name'' ''Ada'' TText Filled]))) = []
   \<and> saveMessage (fst (handleDownloadFilledDoc broken_base (Some ''blob:scan'')
              (store_of [boxed_field ''name'' ''Ada'' TText Filled]))) =
       Some (Error, ''Failed to generate PDF. Please try again.'')
   \<and> cur_fields (fst (handleDownloadFilledDoc broken_base (Some ''blob:scan'')
              (store_of [boxed_field ''name'' ''Ada'' TText Filled]))) =
       [boxed_field ''name'' ''Ada'' TText Filled]"
  using C6_base_image_decode_failure
          [of "''blob:scan''" broken_base "store_of [boxed_field ''name'' ''Ada'' TText Filled]"]
  by (simp add: broken_base_def store_of_def)

lemma drawField_excluded: "excluded f \<Longrightarrow> drawField env width height f = []"
  by (auto simp add: excluded_def drawField_def split: option.splits)

lemma drawFields_filter_excluded:
  "drawFields env width height (filter (\<lambda>f. \<not> excluded f) fs) = drawFields env width height fs"
  by (induction fs) (simp_all add: drawField_excluded)

text \<open>
  C7: a field without a bounding box, without a value, or skipped makes no call on the
  canvas.  The calls made for a field list, the document saved and the message reported are
  those for the list with such fields left out, so these fields raise no error either.
\<close>

theorem C7_excluded_fields_draw_nothing:
  "(excluded f \<longrightarrow> drawField env width height f = [])
   \<and> (boundingBox f = Some bb \<and> value f = [] \<longrightarrow> drawField env width height f = [])
   \<and> drawFields env width height fs = drawFields env width height (filter (\<lambda>f. \<not> excluded f) fs)
   \<and> snd (handleDownloadFilledDoc env imageUrl st) =
       snd (handleDownloadFilledDoc env imageUrl
              (st\<lparr>cur_fields := filter (\<lambda>f. \<not> excluded f) (cur_fields st)\<rparr>))
   \<and> saveMessage (fst (handleDownloadFilledDoc env imageUrl st)) =
       saveMessage (fst (handleDownloadFilledDoc env imageUrl
              (st\<lparr>cur_fields := filter (\<lambda>f. \<not> excluded f) (cur_fields st)\<rparr>)))"
proof -
  have gen: "tryGenerate env url (filter (\<lambda>f. \<not> excluded f) fs') = tryGenerate env url fs'"
    for url fs'
    by (simp add: tryGenerate_def drawFields_filter_excluded split: option.splits)
  have "excluded f \<longrightarrow> drawField env width height f = []"
    by (simp add: drawField_excluded)
  moreover have "boundingBox f = Some bb \<and> value f = [] \<longrightarrow> drawField env width height f = []"
    by (simp add: drawField_excluded excluded_def)
  moreover have "drawFields env width height fs =
      drawFields env width height (filter (\<lambda>f. \<not> excluded f) fs)"
    by (simp add: drawFields_filter_excluded)
  moreover have "snd (handleDownloadFilledDoc env imageUrl st) =
       snd (handleDownloadFilledDoc env imageUrl
              (st\<lparr>cur_fields := filter (\<lambda>f. \<not> excluded f) (cur_fields st)\<rparr>))"
    by (simp add: handleDownloadFilledDoc_def gen split: option.splits prod.splits sum.splits)
  moreover have "saveMessage (fst (handleDownloadFilledDoc env imageUrl st)) =
       saveMessage (fst (handleDownloadFilledDoc env imageUrl
              (st\<lparr>cur_fields := filter (\<lambda>f. \<not> excluded f) (cur_fields st)\<rparr>)))"
    by (simp add: handleDownloadFilledDoc_def gen split: option.splits prod.splits sum.splits)
  ultimately show ?thesis by (intro conjI)
qed

theorem C7_excluded_fields_draw_nothing_witness:
  "drawField small_images 200 200 (boxed_field ''name'' '''' TText Empty) = []
   \<and> drawField small_images 200 200 (boxed_field ''zip'' ''0150'' TText Skipped) = []
   \<and> drawField small_images 200 200 (plain_field ''city'' ''Oslo'' Filled True) = []
   \<and> fst (snd (handleDownloadFilledDoc small_images (Some ''blob:scan'')
        (store_of [boxed_field ''name'' '''' TText Empty]))) = [SetCanvasSize 200 200, DrawBase]
   \<and> saveMessage (fst (handleDownloadFilledDoc small_images (Some ''blob:scan'')
        (store_of [boxed_field ''name'' '''' TText Empty]))) = None"
proof -
  have e1: "excluded (boxed_field ''name'' '''' TText Empty)"
    and e2: "excluded (boxed_field ''zip'' ''0150'' TText Skipped)"
    and e3: "excluded (plain_field ''city'' ''Oslo'' Filled True)"
    by (simp_all add: excluded_def boxed_field_def plain_field_def)
  note t = C7_excluded_fields_draw_nothing
  have "drawField small_images 200 200 (boxed_field ''name'' '''' TText Empty) = []"
    using t[of "boxed_field ''name'' '''' TText Empty" small_images 200 200] e1 by blast
  moreover have "drawField small_images 200 200 (boxed_field ''zip'' ''0150'' TText Skipped) = []"
    using t[of "boxed_field ''zip'' ''0150'' TText Skipped" small_images 200 200] e2 by blast
  moreover have "drawField small_images 200 200 (plain_field ''city'' ''Oslo'' Filled True) = []"
    using t[of "plain_field ''city'' ''Oslo'' Filled True" small_images 200 200] e3 by blast
  moreover have "handleDownloadFilledDoc small_images (Some ''blob:scan'')
        (store_of [boxed_field ''name'' '''' TText Empty])
      = (store_of [boxed_field ''name'' '''' TText Empty], [SetCanvasSize 200 200, DrawBase],
         Some \<lparr>orientation = Portrait, pageWidth = 200, pageHeight = 200,
               page = [SetCanvasSize 200 200, DrawBase]\<rparr>)"
    using e1 by (simp add: handleDownloadFilledDoc_def tryGenerate_def small_images_def
        store_of_def drawField_excluded Let_def)
  ultimately show ?thesis by (simp add: store_of_def)
qed

section \<open>Evaluating binary64 operations\<close>

lemma fl_0 [simp]: "fl 0 = Fin 0"
  by (simp add: fl_def)

lemmas fl_eval_simps =
  rne_def Let_def floor_rat_numeral power_int_numeral power_int_numeral_neg_numeral

lemma fl_six_tenths: "fl (6 / 10) = Fin (5404319552844595 / 2 ^ 53)"
  by (subst fl_eval[where k = "- 1"]) (simp_all add: fl_eval_simps)

section \<open>Overlay compositor: font size\<close>

lemma fontSize_10: "fontSize (Fin 10) = Fin 12"
proof -
  have "fl (10 * (5404319552844595 / 2 ^ 53)) = Fin 6"
    by (subst fl_eval[where k = 2]) (simp_all add: fl_eval_simps)
  then show ?thesis unfolding fontSize_def fl_six_tenths by simp
qed

lemma fontSize_200: "fontSize (Fin 200) = Fin 60"
proof -
  have "fl (200 * (5404319552844595 / 2 ^ 53)) = Fin 120"
    by (subst fl_eval[where k = 6]) (simp_all add: fl_eval_simps)
  then show ?thesis unfolding fontSize_def fl_six_tenths by simp
qed

lemma fontSize_50: "fontSize (Fin 50) = Fin 30"
proof -
  have "fl (50 * (5404319552844595 / 2 ^ 53)) = Fin 30"
    by (subst fl_eval[where k = 4]) (simp_all add: fl_eval_simps)
  then show ?thesis unfolding fontSize_def fl_six_tenths by simp
qed

lemma fontSize_clamp:
  assumes "jmul (Fin h) (fl (6 / 10)) = Fin p"
  shows "fontSize (Fin h) = Fin (of_int (clamp \<lfloor>p\<rfloor> 12 60))"
proof -
  have "rat_of_int \<lfloor>p\<rfloor> < 12 \<longleftrightarrow> \<lfloor>p\<rfloor> < 12" "(60 < rat_of_int \<lfloor>p\<rfloor>) \<longleftrightarrow> 60 < \<lfloor>p\<rfloor>"
    by linarith+
  then show ?thesis
    using assms unfolding fontSize_def
    by (auto simp add: clamp_def Let_def max_def min_def)
qed

lemma six_tenths_product_finite:
  assumes "\<bar>h\<bar> < 2 ^ 1023"
  shows "\<exists>p. jmul (Fin h) (fl (6 / 10)) = Fin p"
proof -
  have "\<bar>h * (5404319552844595 / 2 ^ 53)\<bar> = \<bar>h\<bar> * (5404319552844595 / 2 ^ 53)"
    by (simp add: abs_mult)
  also have "\<dots> \<le> \<bar>h\<bar> * 1"
    by (intro mult_left_mono) simp_all
  finally have "\<bar>h * (5404319552844595 / 2 ^ 53)\<bar> < 2 ^ 1023"
    using assms by linarith
  from fl_abs_error[OF this] show ?thesis
    unfolding fl_six_tenths jmul.simps by blast
qed

lemma six_tenths_product:
  fixes h :: rat
  assumes "1 / 2 ^ 900 \<le> h" "h \<le> 2 ^ 900"
  shows "\<exists>p. jmul (Fin h) (fl (6 / 10)) = Fin p \<and> \<bar>p - 6 / 10 * h\<bar> \<le> h / 2 ^ 53"
proof -
  define c :: rat where "c = 5404319552844595 / 2 ^ 53"
  have h0: "0 < h"
  proof -
    have "(0::rat) < 1 / 2 ^ 900" by simp
    with assms(1) show ?thesis by linarith
  qed
  have cv: "c = 5404319552844595 / 9007199254740992" by (simp add: c_def)
  have lo: "h / 2 \<le> h * c" and hi: "h * c \<le> h"
    using h0 unfolding cv by simp_all
  have "1 / (2::rat) ^ 1000 \<le> (1 / 2 ^ 900) / 2" by simp
  also have "\<dots> \<le> h / 2" using assms(1) by simp
  finally have a: "1 / 2 ^ 1000 \<le> \<bar>h * c\<bar>" using lo h0 by linarith
  have "(2::rat) ^ 900 \<le> 2 ^ 1000" by simp
  with hi assms(2) lo h0 have b: "\<bar>h * c\<bar> \<le> 2 ^ 1000" by linarith
  from fl_normal[OF a b] obtain p where p: "fl (h * c) = Fin p" "\<bar>p - h * c\<bar> \<le> \<bar>h * c\<bar> / 2 ^ 53"
    by blast
  have eq: "jmul (Fin h) (fl (6 / 10)) = Fin p"
    unfolding fl_six_tenths jmul.simps using p(1) by (simp only: c_def)
  have pw: "(2::rat) ^ 53 = 9007199254740992" by simp
  define q where "q = h * c"
  have q0: "0 < q" using lo h0 unfolding q_def by linarith
  have hc: "q = 6 / 10 * h - h / 45035996273704960" unfolding q_def cv by simp
  have "\<bar>p - q\<bar> \<le> q / 9007199254740992"
    using p(2) q0 unfolding pw q_def[symmetric] by simp
  then have "\<bar>p - 6 / 10 * h\<bar> \<le> h / 2 ^ 53"
    unfolding pw using hc h0 by linarith
  with eq show ?thesis by blast
qed

lemma floor_between:
  fixes p z E :: rat
  assumes "\<bar>p - z\<bar> \<le> E" "\<lfloor>z - E\<rfloor> = \<lfloor>z + E\<rfloor>"
  shows "\<lfloor>p\<rfloor> = \<lfloor>z\<rfloor>"
proof -
  have E0: "0 \<le> E" using assms(1) by linarith
  have "z - E \<le> p" "p \<le> z + E" using assms(1) by linarith+
  then have "\<lfloor>z - E\<rfloor> \<le> \<lfloor>p\<rfloor>" "\<lfloor>p\<rfloor> \<le> \<lfloor>z + E\<rfloor>" by (simp_all add: floor_mono)
  moreover have "\<lfloor>z - E\<rfloor> \<le> \<lfloor>z\<rfloor>" "\<lfloor>z\<rfloor> \<le> \<lfloor>z + E\<rfloor>" using E0 by (simp_all add: floor_mono)
  ultimately show ?thesis using assms(2) by linarith
qed

lemma clamp_step:
  fixes a b :: int
  assumes "\<bar>a - b\<bar> \<le> 1"
  shows "\<bar>clamp a 12 60 - clamp b 12 60\<bar> \<le> 1"
  using assms unfolding clamp_def by linarith

lemma clamp_near:
  fixes p z h :: rat
  assumes "0 < h" "\<bar>p - 6 / 10 * h\<bar> \<le> h / 2 ^ 53"
  shows "\<bar>clamp \<lfloor>p\<rfloor> 12 60 - clamp \<lfloor>6 / 10 * h\<rfloor> 12 60\<bar> \<le> 1"
proof (cases "h \<le> 1000")
  case True
  have pw: "(2::rat) ^ 53 = 9007199254740992" by simp
  have "\<bar>p - 6 / 10 * h\<bar> \<le> 1 / 2" using assms True unfolding pw by linarith
  then have "6 / 10 * h - 1 \<le> p" "p \<le> 6 / 10 * h + 1" by linarith+
  then have "\<lfloor>6 / 10 * h - 1\<rfloor> \<le> \<lfloor>p\<rfloor>" "\<lfloor>p\<rfloor> \<le> \<lfloor>6 / 10 * h + 1\<rfloor>" by (simp_all only: floor_mono)
  moreover have "\<lfloor>6 / 10 * h - 1\<rfloor> = \<lfloor>6 / 10 * h\<rfloor> - 1" "\<lfloor>6 / 10 * h + 1\<rfloor> = \<lfloor>6 / 10 * h\<rfloor> + 1"
    by simp_all
  ultimately have "\<bar>\<lfloor>p\<rfloor> - \<lfloor>6 / 10 * h\<rfloor>\<bar> \<le> 1" by linarith
  then show ?thesis by (rule clamp_step)
next
  case False
  have pw: "(2::rat) ^ 53 = 9007199254740992" by simp
  have "rat_of_int 60 \<le> 6 / 10 * h" using False by simp
  then have a: "60 \<le> \<lfloor>6 / 10 * h\<rfloor>" by (simp only: le_floor_iff)
  have "6 / 10 * h - h / 9007199254740992 \<le> p" using assms(2) unfolding pw by linarith
  then have "rat_of_int 60 \<le> p" using False by simp
  then have b: "60 \<le> \<lfloor>p\<rfloor>" by (simp only: le_floor_iff)
  from a b show ?thesis unfolding clamp_def by linarith
qed

lemma six_tenths_of_fives:
  fixes j :: nat
  assumes "0 < j" "j < 2 ^ 32"
  shows "fl (rat_of_nat (5 * j) * (5404319552844595 / 2 ^ 53)) = Fin (rat_of_nat (3 * j))"
proof -
  define J where "J = rat_of_nat j"
  define q where "q = rat_of_nat (5 * j) * (5404319552844595 / 2 ^ 53)"
  have J1: "1 \<le> J" using assms(1) by (simp add: J_def)
  have "rat_of_nat j < 2 ^ 32" using assms(2) by (metis of_nat_less_numeral_power_cancel_iff)
  then have J32: "J < 4294967296" by (simp add: J_def)
  have qJ: "q = 3 * J - J / 9007199254740992" by (simp add: q_def J_def)
  have q2: "2 * J \<le> q" and q3: "q < 3 * J" using J1 unfolding qJ by linarith+
  have q0: "0 < \<bar>q\<bar>" and qa: "\<bar>q\<bar> = q" and qn: "q \<noteq> 0" using q2 J1 by linarith+
  have "q < 2 ^ 34" using q3 J32 by simp
  moreover have "(2::rat) ^ 34 < 2 ^ 1023" by simp
  ultimately have qbig: "\<bar>q\<bar> < 2 ^ 1023" unfolding qa by linarith
  define k where "k = ilog2 \<bar>q\<bar>"
  define P where "P = (2::rat) powi k"
  have P0: "0 < P" by (simp add: P_def)
  have b1: "P \<le> q" using ilog2_bounds(1)[OF q0] by (simp add: k_def P_def qa)
  have b2: "q < 2 * P"
    using ilog2_bounds(2)[OF q0] by (simp add: k_def P_def qa two_powi_Suc)
  have "(2::rat) powi 0 < 2 powi (k + 1)"
    using b2 q2 J1 unfolding P_def two_powi_Suc by simp
  then have "0 < k + 1" by (metis power_int_increasing not_less one_le_numeral)
  then have k0: "0 \<le> k" by simp
  have "(2::rat) ^ 34 \<le> 2 powi 53" by (simp add: power_int_numeral)
  with b1 \<open>q < 2 ^ 34\<close> have "(2::rat) powi k < 2 powi 53" unfolding P_def by linarith
  then have k53: "k < 53" by (metis power_int_increasing not_less one_le_numeral)
  then have e: "max (k - 52) (- 1074) = k - 52" using k0 by simp
  define t where "t = nat (52 - k)"
  define T where "T = (2::rat) ^ t"
  have T0: "0 < T" by (simp add: T_def)
  have "nat k + t = 52" using k0 k53 by (simp add: t_def)
  then have "(2::rat) ^ nat k * 2 ^ t = 2 ^ 52" by (simp only: power_add[symmetric])
  then have PT: "P * T = 4503599627370496"
    using k0 by (simp add: P_def T_def two_powi_nat)
  have pe: "(2::rat) powi (k - 52) = P / 4503599627370496"
  proof -
    have "(2::rat) powi (k - 52) = 2 powi k / 2 powi 52" by (rule power_int_diff) simp
    then show ?thesis by (simp add: P_def power_int_numeral)
  qed
  have pe': "(2::rat) powi (k - 52) = 1 / T"
    unfolding pe using PT[symmetric] P0 T0 by (simp add: field_simps)
  define M where "M = 3 * int j * 2 ^ t"
  have Mr: "rat_of_int M = 3 * J * T" by (simp add: M_def J_def T_def)
  have x: "q / 2 powi (k - 52) = q * T" unfolding pe' by simp
  have "J < P" using q2 b2 by linarith
  then have "J * T < P * T" using T0 by (simp only: mult_strict_right_mono)
  then have JT: "J * T < 4503599627370496" unfolding PT .
  have "q * T - rat_of_int M = - (J * T) / 9007199254740992"
    unfolding Mr qJ by (simp add: algebra_simps)
  then have "\<bar>q * T - rat_of_int M\<bar> = (J * T) / 9007199254740992"
    using J1 T0 by simp
  also have "\<dots> < 1 / 2" using JT by simp
  finally have "rne (q * T) = M" by (rule rne_near)
  then have "rat_of_int (rne (q / 2 powi (k - 52))) * 2 powi (k - 52) = 3 * J"
    unfolding x using T0 by (simp add: Mr pe')
  moreover have "fl q = Fin (rat_of_int (rne (q / 2 powi (k - 52))) * 2 powi (k - 52))"
    using fl_error_gen[OF qn qbig, THEN conjunct1] unfolding k_def[symmetric] e .
  ultimately have "fl q = Fin (3 * J)" by simp
  then show ?thesis by (simp add: q_def J_def)
qed

lemma whole_pixel_product:
  fixes n :: nat
  assumes "n < 2 ^ 32"
  shows "\<exists>p. jmul (num_of_nat n) (fl (6 / 10)) = Fin p \<and> \<lfloor>p\<rfloor> = \<lfloor>6 / 10 * rat_of_nat n\<rfloor>"
proof (cases "5 dvd n")
  case True
  then obtain j where n: "n = 5 * j" by (elim dvdE)
  show ?thesis
  proof (cases "j = 0")
    case True
    with n have "jmul (num_of_nat n) (fl (6 / 10)) = Fin 0"
      unfolding fl_six_tenths by (simp add: num_of_nat_def)
    with n True show ?thesis by simp
  next
    case False
    with n assms have j: "0 < j" "j < 2 ^ 32" by simp_all
    have "jmul (num_of_nat n) (fl (6 / 10)) = Fin (rat_of_nat (3 * j))"
      unfolding fl_six_tenths num_of_nat_def jmul.simps n by (rule six_tenths_of_fives[OF j])
    moreover have "\<lfloor>rat_of_nat (3 * j)\<rfloor> = \<lfloor>6 / 10 * rat_of_nat n\<rfloor>" by (simp add: n)
    ultimately show ?thesis by blast
  qed
next
  case False
  then have npos: "0 < n" by (cases "n = 0") simp_all
  define h where "h = rat_of_nat n"
  have h1: "1 \<le> h" using npos by (simp add: h_def)
  have "rat_of_nat n < 2 ^ 32" using assms by (metis of_nat_less_numeral_power_cancel_iff)
  then have h32: "h < 4294967296" by (simp add: h_def)
  have "1 / (2::rat) ^ 900 \<le> 1" by simp
  with h1 have a: "1 / 2 ^ 900 \<le> h" by linarith
  have "(4294967296::rat) \<le> 2 ^ 900" by simp
  with h32 have b: "h \<le> 2 ^ 900" by linarith
  from six_tenths_product[OF a b] obtain p where
    p: "jmul (Fin h) (fl (6 / 10)) = Fin p" "\<bar>p - 6 / 10 * h\<bar> \<le> h / 2 ^ 53" by blast
  define D where "D = (3 * int n) div 5"
  define R where "R = (3 * int n) mod 5"
  have "\<not> 5 dvd 3 * int n" using False by presburger
  then have "R \<noteq> 0" unfolding R_def by (simp add: dvd_eq_mod_eq_0)
  moreover have "0 \<le> R" "R < 5" unfolding R_def by simp_all
  ultimately have R1: "1 \<le> R" and R4: "R \<le> 4" by linarith+
  have "3 * int n = 5 * D + R" unfolding D_def R_def by simp
  then have "rat_of_int (3 * int n) = rat_of_int (5 * D + R)" by (rule arg_cong)
  then have hD: "3 * h = 5 * rat_of_int D + rat_of_int R" by (simp add: h_def)
  have R1': "1 \<le> rat_of_int R" and R4': "rat_of_int R \<le> 4" using R1 R4 by simp_all
  have pw: "(2::rat) ^ 53 = 9007199254740992" by simp
  have "rat_of_int D \<le> p" "p < rat_of_int D + 1"
    using p(2) hD R1' R4' h32 h1 unfolding pw by linarith+
  then have fp: "\<lfloor>p\<rfloor> = D" by (rule floor_unique)
  have "rat_of_int D \<le> 6 / 10 * h" "6 / 10 * h < rat_of_int D + 1"
    using hD R1' R4' by linarith+
  then have fz: "\<lfloor>6 / 10 * h\<rfloor> = D" by (rule floor_unique)
  from p(1) fp fz show ?thesis unfolding h_def num_of_nat_def by (intro exI[of _ p]) simp
qed

lemma six_tenths_product_abs:
  assumes "\<bar>h\<bar> < 2 ^ 1023"
  shows "\<exists>p. jmul (Fin h) (fl (6 / 10)) = Fin p
           \<and> \<bar>p - (6 / 10 * h - h / 45035996273704960)\<bar>
               \<le> \<bar>6 / 10 * h - h / 45035996273704960\<bar> / 9007199254740992 + 1 / 2"
proof -
  define q where "q = h * (5404319552844595 / 2 ^ 53)"
  have hc: "q = 6 / 10 * h - h / 45035996273704960" by (simp add: q_def)
  have "\<bar>q\<bar> = \<bar>h\<bar> * (5404319552844595 / 2 ^ 53)"
    by (simp add: q_def abs_mult)
  also have "\<dots> \<le> \<bar>h\<bar> * 1"
    by (intro mult_left_mono) simp_all
  finally have "\<bar>q\<bar> < 2 ^ 1023"
    using assms by linarith
  from fl_abs_error[OF this] obtain p where
    p: "fl q = Fin p" "\<bar>p - q\<bar> \<le> \<bar>q\<bar> / 2 ^ 53 + 2 powi (- 1075)" by blast
  have "(2::rat) powi (- 1075) \<le> 2 powi (- 1)"
    by (intro power_int_increasing) simp_all
  then have eta: "(2::rat) powi (- 1075) \<le> 1 / 2" by (simp add: power_int_minus)
  have pw: "(2::rat) ^ 53 = 9007199254740992" by simp
  have "\<bar>p - q\<bar> \<le> \<bar>q\<bar> / 9007199254740992 + 1 / 2"
    using p(2) eta unfolding pw by linarith
  moreover have "jmul (Fin h) (fl (6 / 10)) = Fin p"
    unfolding fl_six_tenths jmul.simps using p(1) by (simp only: q_def)
  ultimately show ?thesis unfolding hc by blast
qed

lemma fontSize_low:
  assumes "\<bar>h\<bar> < 2 ^ 1023" "h \<le> 20"
  shows "fontSize (Fin h) = Fin 12"
proof -
  from six_tenths_product_abs[OF assms(1)] obtain p where
    p: "jmul (Fin h) (fl (6 / 10)) = Fin p"
       "\<bar>p - (6 / 10 * h - h / 45035996273704960)\<bar>
          \<le> \<bar>6 / 10 * h - h / 45035996273704960\<bar> / 9007199254740992 + 1 / 2" by blast
  have "p < rat_of_int 13" using p(2) assms(2) by (simp; linarith)
  then have "\<lfloor>p\<rfloor> < 13" by (simp only: floor_less_iff)
  then have "clamp \<lfloor>p\<rfloor> 12 60 = 12" by (simp add: clamp_def)
  with fontSize_clamp[OF p(1)] show ?thesis by simp
qed

lemma fontSize_high:
  assumes "\<bar>h\<bar> < 2 ^ 1023" "101 \<le> h"
  shows "fontSize (Fin h) = Fin 60"
proof -
  from six_tenths_product_abs[OF assms(1)] obtain p where
    p: "jmul (Fin h) (fl (6 / 10)) = Fin p"
       "\<bar>p - (6 / 10 * h - h / 45035996273704960)\<bar>
          \<le> \<bar>6 / 10 * h - h / 45035996273704960\<bar> / 9007199254740992 + 1 / 2" by blast
  have "rat_of_int 60 \<le> p" using p(2) assms(2) by (simp; linarith)
  then have "60 \<le> \<lfloor>p\<rfloor>" by (simp only: le_floor_iff)
  then have "clamp \<lfloor>p\<rfloor> 12 60 = 60" by (simp add: clamp_def)
  with fontSize_clamp[OF p(1)] show ?thesis by simp
qed

lemma clamp_low:
  fixes h :: rat
  assumes "h \<le> 20"
  shows "clamp \<lfloor>6 / 10 * h\<rfloor> 12 60 = 12"
proof -
  have "6 / 10 * h < rat_of_int 13" using assms by simp
  then have "\<lfloor>6 / 10 * h\<rfloor> < 13" by (simp only: floor_less_iff)
  then show ?thesis by (simp add: clamp_def)
qed

lemma clamp_high:
  fixes h :: rat
  assumes "100 \<le> h"
  shows "clamp \<lfloor>6 / 10 * h\<rfloor> 12 60 = 60"
proof -
  have "rat_of_int 60 \<le> 6 / 10 * h" using assms by simp
  then have "60 \<le> \<lfloor>6 / 10 * h\<rfloor>" by (simp only: le_floor_iff)
  then show ?thesis by (simp add: clamp_def)
qed

lemma fontSize_vs_exact:
  assumes "\<bar>h\<bar> < 2 ^ 1023"
  shows "\<exists>s. fontSize (Fin h) = Fin (rat_of_int s) \<and> 12 \<le> s \<and> s \<le> 60
           \<and> \<bar>s - clamp \<lfloor>6 / 10 * h\<rfloor> 12 60\<bar> \<le> 1
           \<and> (\<lfloor>6 / 10 * h - \<bar>h\<bar> / 2 ^ 53\<rfloor> = \<lfloor>6 / 10 * h + \<bar>h\<bar> / 2 ^ 53\<rfloor>
                \<longrightarrow> s = clamp \<lfloor>6 / 10 * h\<rfloor> 12 60)"
proof -
  consider "h \<le> 20" | "101 \<le> h" | "20 < h" "h < 101" by linarith
  then show ?thesis
  proof cases
    case 1
    from fontSize_low[OF assms 1] clamp_low[OF 1] show ?thesis
      by (intro exI[of _ 12]) simp
  next
    case 2
    then have "100 \<le> h" by simp
    from fontSize_high[OF assms 2] clamp_high[OF this] show ?thesis
      by (intro exI[of _ 60]) simp
  next
    case 3
    have "1 / (2::rat) ^ 900 \<le> 1" by simp
    with 3(1) have a: "1 / 2 ^ 900 \<le> h" by linarith
    have "(101::rat) \<le> 2 ^ 900" by simp
    with 3(2) have b: "h \<le> 2 ^ 900" by linarith
    from six_tenths_product[OF a b] obtain p where
      p: "jmul (Fin h) (fl (6 / 10)) = Fin p" "\<bar>p - 6 / 10 * h\<bar> \<le> h / 2 ^ 53" by blast
    have h0: "0 < h" and ha: "\<bar>h\<bar> = h" using 3(1) by simp_all
    define s where "s = clamp \<lfloor>p\<rfloor> 12 60"
    have f: "fontSize (Fin h) = Fin (rat_of_int s)"
      unfolding s_def by (rule fontSize_clamp[OF p(1)])
    have r: "12 \<le> s" "s \<le> 60" by (simp_all add: s_def clamp_def)
    have n: "\<bar>s - clamp \<lfloor>6 / 10 * h\<rfloor> 12 60\<bar> \<le> 1"
      unfolding s_def by (rule clamp_near[OF h0 p(2)])
    have "s = clamp \<lfloor>6 / 10 * h\<rfloor> 12 60"
      if "\<lfloor>6 / 10 * h - \<bar>h\<bar> / 2 ^ 53\<rfloor> = \<lfloor>6 / 10 * h + \<bar>h\<bar> / 2 ^ 53\<rfloor>"
    proof -
      from that have "\<lfloor>6 / 10 * h - h / 2 ^ 53\<rfloor> = \<lfloor>6 / 10 * h + h / 2 ^ 53\<rfloor>"
        unfolding ha .
      from floor_between[OF p(2) this] show ?thesis by (simp only: s_def)
    qed
    with f r n show ?thesis by blast
  qed
qed

lemma fontSize_whole_pixels:
  assumes "n < 2 ^ 32"
  shows "fontSize (num_of_nat n) = Fin (rat_of_int (clamp \<lfloor>6 / 10 * rat_of_nat n\<rfloor> 12 60))"
proof -
  from whole_pixel_product[OF assms] obtain p where
    p: "jmul (num_of_nat n) (fl (6 / 10)) = Fin p" "\<lfloor>p\<rfloor> = \<lfloor>6 / 10 * rat_of_nat n\<rfloor>" by blast
  from p(1) have "jmul (Fin (rat_of_nat n)) (fl (6 / 10)) = Fin p"
    by (simp only: num_of_nat_def)
  from fontSize_clamp[OF this] show ?thesis
    unfolding p(2) by (simp only: num_of_nat_def)
qed

text \<open>
  C9: a field that is drawn and is neither an image nor a signature nor a checkbox gets the
  font size \<open>fontSize h\<close>, with \<open>h\<close> the height of its box in pixels, and its value as text.
  \<open>fontSize h\<close> is \<open>clamp (floor p) 12 60\<close> with \<open>p\<close> the binary64 product \<open>h * 0.6\<close> that
  the code computes, which is finite for every finite height below \<open>2 ^ 1023\<close>.  Against the
  exact \<open>clamp (floor (6 / 10 * h)) 12 60\<close>: the size is an integer from 12 to 60 that differs
  from it by at most 1; the two are equal whenever no integer lies within \<open>|h| / 2 ^ 53\<close> of
  \<open>6 / 10 * h\<close> (the two floors at that distance agree), whenever \<open>h \<le> 20\<close> (size 12) or
  \<open>101 \<le> h\<close> (size 60), and for every height that is a whole number of pixels below
  \<open>2 ^ 32\<close>.  For heights from \<open>1 / 2 ^ 900\<close> to \<open>2 ^ 900\<close> the product \<open>p\<close> is within
  \<open>h / 2 ^ 53\<close> of \<open>6 / 10 * h\<close>.  Heights of 10, 200 and 50 pixels give the sizes 12, 60
  and 30.
\<close>

theorem C9_font_size:
  "(boundingBox f = Some bb \<and> value f \<noteq> [] \<and> status f \<noteq> Skipped
      \<and> type f \<noteq> TImage \<and> type f \<noteq> TSignature \<and> type f \<noteq> TCheckbox \<longrightarrow>
      drawField env width height f =
        [SetFillStyle ''#000000'',
         SetFont (fontSize (jmul (jsub (entry bb 2) (entry bb 0)) (num_of_nat height))),
         SetTextBaseline ''middle'',
         FillText (value f)
           (jadd (jmul (entry bb 1) (num_of_nat width)) (Fin 5))
           (jadd (jmul (entry bb 0) (num_of_nat height))
                 (jdiv (jmul (jsub (entry bb 2) (entry bb 0)) (num_of_nat height)) (Fin 2)))
           (jsub (jmul (jsub (entry bb 3) (entry bb 1)) (num_of_nat width)) (Fin 10))])
   \<and> (jmul (Fin h) (fl (6 / 10)) = Fin p \<longrightarrow> fontSize (Fin h) = Fin (of_int (clamp \<lfloor>p\<rfloor> 12 60)))
   \<and> (\<bar>h\<bar> < 2 ^ 1023 \<longrightarrow> (\<exists>p. jmul (Fin h) (fl (6 / 10)) = Fin p))
   \<and> (\<bar>h\<bar> < 2 ^ 1023 \<longrightarrow>
        (\<exists>s. fontSize (Fin h) = Fin (of_int s) \<and> 12 \<le> s \<and> s \<le> 60
              \<and> \<bar>s - clamp \<lfloor>6 / 10 * h\<rfloor> 12 60\<bar> \<le> 1))
   \<and> (\<bar>h\<bar> < 2 ^ 1023 \<and> \<lfloor>6 / 10 * h - \<bar>h\<bar> / 2 ^ 53\<rfloor> = \<lfloor>6 / 10 * h + \<bar>h\<bar> / 2 ^ 53\<rfloor> \<longrightarrow>
        fontSize (Fin h) = Fin (of_int (clamp \<lfloor>6 / 10 * h\<rfloor> 12 60)))
   \<and> (\<bar>h\<bar> < 2 ^ 1023 \<and> h \<le> 20 \<longrightarrow>
        fontSize (Fin h) = Fin 12 \<and> clamp \<lfloor>6 / 10 * h\<rfloor> 12 60 = 12)
   \<and> (\<bar>h\<bar> < 2 ^ 1023 \<and> 101 \<le> h \<longrightarrow>
        fontSize (Fin h) = Fin 60 \<and> clamp \<lfloor>6 / 10 * h\<rfloor> 12 60 = 60)
   \<and> (1 / 2 ^ 900 \<le> h \<and> h \<le> 2 ^ 900 \<longrightarrow>
        (\<exists>p. jmul (Fin h) (fl (6 / 10)) = Fin p \<and> \<bar>p - 6 / 10 * h\<bar> \<le> h / 2 ^ 53))
   \<and> (n < 2 ^ 32 \<longrightarrow>
        fontSize (num_of_nat n) = Fin (of_int (clamp \<lfloor>6 / 10 * rat_of_nat n\<rfloor> 12 60)))
   \<and> fontSize (Fin 10) = Fin 12
   \<and> fontSize (Fin 200) = Fin 60
   \<and> fontSize (Fin 50) = Fin 30"
proof -
  have "boundingBox f = Some bb \<and> value f \<noteq> [] \<and> status f \<noteq> Skipped
      \<and> type f \<noteq> TImage \<and> type f \<noteq> TSignature \<and> type f \<noteq> TCheckbox \<longrightarrow>
      drawField env width height f =
        [SetFillStyle ''#000000'',
         SetFont (fontSize (jmul (jsub (entry bb 2) (entry bb 0)) (num_of_nat height))),
         SetTextBaseline ''middle'',
         FillText (value f)
           (jadd (jmul (entry bb 1) (num_of_nat width)) (Fin 5))
           (jadd (jmul (entry bb 0) (num_of_nat height))
                 (jdiv (jmul (jsub (entry bb 2) (entry bb 0)) (num_of_nat height)) (Fin 2)))
           (jsub (jmul (jsub (entry bb 3) (entry bb 1)) (num_of_nat width)) (Fin 10))]"
    by (simp add: drawField_def Let_def)
  moreover have "jmul (Fin h) (fl (6 / 10)) = Fin p \<longrightarrow>
      fontSize (Fin h) = Fin (of_int (clamp \<lfloor>p\<rfloor> 12 60))"
    using fontSize_clamp by blast
  moreover have "\<bar>h\<bar> < 2 ^ 1023 \<longrightarrow> (\<exists>p. jmul (Fin h) (fl (6 / 10)) = Fin p)"
    using six_tenths_product_finite by blast
  moreover have "\<bar>h\<bar> < 2 ^ 1023 \<longrightarrow>
        (\<exists>s. fontSize (Fin h) = Fin (of_int s) \<and> 12 \<le> s \<and> s \<le> 60
              \<and> \<bar>s - clamp \<lfloor>6 / 10 * h\<rfloor> 12 60\<bar> \<le> 1)"
    using fontSize_vs_exact[of h] by blast
  moreover have "\<bar>h\<bar> < 2 ^ 1023 \<and> \<lfloor>6 / 10 * h - \<bar>h\<bar> / 2 ^ 53\<rfloor> = \<lfloor>6 / 10 * h + \<bar>h\<bar> / 2 ^ 53\<rfloor> \<longrightarrow>
        fontSize (Fin h) = Fin (of_int (clamp \<lfloor>6 / 10 * h\<rfloor> 12 60))"
    using fontSize_vs_exact[of h] by blast
  moreover have "\<bar>h\<bar> < 2 ^ 1023 \<and> h \<le> 20 \<longrightarrow>
        fontSize (Fin h) = Fin 12 \<and> clamp \<lfloor>6 / 10 * h\<rfloor> 12 60 = 12"
    using fontSize_low[of h] clamp_low[of h] by blast
  moreover have "\<bar>h\<bar> < 2 ^ 1023 \<and> 101 \<le> h \<longrightarrow>
        fontSize (Fin h) = Fin 60 \<and> clamp \<lfloor>6 / 10 * h\<rfloor> 12 60 = 60"
  proof (intro impI)
    assume a: "\<bar>h\<bar> < 2 ^ 1023 \<and> 101 \<le> h"
    then have "100 \<le> h" by linarith
    with a fontSize_high[of h] clamp_high[of h]
    show "fontSize (Fin h) = Fin 60 \<and> clamp \<lfloor>6 / 10 * h\<rfloor> 12 60 = 60" by blast
  qed
  moreover have "1 / 2 ^ 900 \<le> h \<and> h \<le> 2 ^ 900 \<longrightarrow>
        (\<exists>p. jmul (Fin h) (fl (6 / 10)) = Fin p \<and> \<bar>p - 6 / 10 * h\<bar> \<le> h / 2 ^ 53)"
    using six_tenths_product[of h] by blast
  moreover have "n < 2 ^ 32 \<longrightarrow>
        fontSize (num_of_nat n) = Fin (of_int (clamp \<lfloor>6 / 10 * rat_of_nat n\<rfloor> 12 60))"
    using fontSize_whole_pixels[of n] by blast
  ultimately show ?thesis
    using fontSize_10 fontSize_200 fontSize_50 by (intro conjI)
qed

theorem C9_font_size_witness:
  "jmul (Fin 50) (fl (6 / 10)) = Fin 30
   \<and> fontSize (Fin 50) = Fin (of_int (clamp \<lfloor>30::rat\<rfloor> 12 60))
   \<and> clamp \<lfloor>30::rat\<rfloor> 12 60 = 30
   \<and> drawField small_images 200 200 (boxed_field ''name'' ''Ada'' TText Filled) =
       [SetFillStyle ''#000000'', SetFont (Fin 60), SetTextBaseline ''middle'',
        FillText ''Ada'' (Fin 5) (Fin 50) (Fin 90)]
   \<and> fontSize (Fin 56) = Fin (of_int (clamp \<lfloor>6 / 10 * 56 :: rat\<rfloor> 12 60))
   \<and> clamp \<lfloor>6 / 10 * 56 :: rat\<rfloor> 12 60 = 33
   \<and> (\<exists>p. jmul (Fin 56) (fl (6 / 10)) = Fin p \<and> \<bar>p - 6 / 10 * 56\<bar> \<le> 56 / 2 ^ 53)
   \<and> (\<exists>s. fontSize (Fin (7975124340135253 / 2 ^ 47)) = Fin (of_int s) \<and> 12 \<le> s \<and> s \<le> 60
          \<and> \<bar>s - clamp \<lfloor>6 / 10 * (7975124340135253 / 2 ^ 47 :: rat)\<rfloor> 12 60\<bar> \<le> 1)
   \<and> fontSize (Fin 7) = Fin 12
   \<and> fontSize (Fin 150) = Fin 60
   \<and> fontSize (num_of_nat 50) = Fin (of_int (clamp \<lfloor>6 / 10 * rat_of_nat 50\<rfloor> 12 60))
   \<and> clamp \<lfloor>6 / 10 * rat_of_nat 50\<rfloor> 12 60 = 30"
proof -
  have prod: "jmul (Fin 50) (fl (6 / 10)) = Fin 30"
    unfolding fl_six_tenths jmul.simps
    by (subst fl_eval[where k = 4]) (simp_all add: fl_eval_simps)
  have ints: "fl 100 = Fin 100" "fl 5 = Fin 5" "fl 50 = Fin 50" "fl 90 = Fin 90"
    by (subst fl_eval[where k = 6], simp_all add: fl_eval_simps,
        subst fl_eval[where k = 2], simp_all add: fl_eval_simps,
        subst fl_eval[where k = 5], simp_all add: fl_eval_simps,
        subst fl_eval[where k = 6], simp_all add: fl_eval_simps)
  have half: "fl (1 / 2) = Fin (1 / 2)"
    by (subst fl_eval[where k = "- 1"]) (simp_all add: fl_eval_simps)
  have f100: "fontSize (Fin 100) = Fin 60"
  proof -
    have "fl (100 * (5404319552844595 / 2 ^ 53)) = Fin 60"
      by (subst fl_eval[where k = 5]) (simp_all add: fl_eval_simps)
    then show ?thesis unfolding fontSize_def fl_six_tenths by simp
  qed
  note t = C9_font_size[of "boxed_field ''name'' ''Ada'' TText Filled"
      "[Fin 0, Fin 0, Fin (1 / 2), Fin (1 / 2)]" small_images 200 200 50 30 50]
  have c1: "fontSize (Fin 50) = Fin (of_int (clamp \<lfloor>30::rat\<rfloor> 12 60))"
    using t[THEN conjunct2, THEN conjunct1] prod by blast
  have c2: "drawField small_images 200 200 (boxed_field ''name'' ''Ada'' TText Filled) =
       [SetFillStyle ''#000000'', SetFont (Fin 60), SetTextBaseline ''middle'',
        FillText ''Ada'' (Fin 5) (Fin 50) (Fin 90)]"
    using t[THEN conjunct1]
    by (simp add: boxed_field_def entry_def num_of_nat_def jsub_def ints half f100)
  have c3: "clamp \<lfloor>30::rat\<rfloor> 12 60 = 30" by (simp add: clamp_def)
  have "(50::nat) < 2 ^ 32" by simp
  then have c4: "fontSize (num_of_nat 50)
      = Fin (of_int (clamp \<lfloor>6 / 10 * rat_of_nat 50\<rfloor> 12 60))"
    using t by blast
  have c5: "clamp \<lfloor>6 / 10 * rat_of_nat 50\<rfloor> 12 60 = 30" by (simp add: clamp_def)
  note u = C9_font_size[where h = 56]
  have small: "\<bar>56::rat\<bar> < 2 ^ 1023" by simp
  have fl56: "\<lfloor>6 / 10 * 56 - \<bar>56\<bar> / 2 ^ 53 :: rat\<rfloor> = \<lfloor>6 / 10 * 56 + \<bar>56\<bar> / 2 ^ 53 :: rat\<rfloor>"
    by (simp add: floor_rat_numeral)
  have c6: "fontSize (Fin 56) = Fin (of_int (clamp \<lfloor>6 / 10 * 56 :: rat\<rfloor> 12 60))"
    using u small fl56 by blast
  have c7: "clamp \<lfloor>6 / 10 * 56 :: rat\<rfloor> 12 60 = 33"
    by (simp add: clamp_def floor_rat_numeral)
  have "1 / 2 ^ 900 \<le> (56::rat)" "(56::rat) \<le> 2 ^ 900" by simp_all
  then have c8: "\<exists>p. jmul (Fin 56) (fl (6 / 10)) = Fin p \<and> \<bar>p - 6 / 10 * 56\<bar> \<le> 56 / 2 ^ 53"
    using u by blast
  have "\<bar>7975124340135253 / 2 ^ 47 :: rat\<bar> < 2 ^ 1023" by simp
  then have c9: "\<exists>s. fontSize (Fin (7975124340135253 / 2 ^ 47)) = Fin (of_int s)
          \<and> 12 \<le> s \<and> s \<le> 60
          \<and> \<bar>s - clamp \<lfloor>6 / 10 * (7975124340135253 / 2 ^ 47 :: rat)\<rfloor> 12 60\<bar> \<le> 1"
    using C9_font_size[where h = "7975124340135253 / 2 ^ 47"] by blast
  have "\<bar>7::rat\<bar> < 2 ^ 1023 \<and> (7::rat) \<le> 20" by simp
  then have c10: "fontSize (Fin 7) = Fin 12"
    using C9_font_size[where h = 7] by blast
  have "\<bar>150::rat\<bar> < 2 ^ 1023 \<and> (101::rat) \<le> 150" by simp
  then have c11: "fontSize (Fin 150) = Fin 60"
    using C9_font_size[where h = 150] by blast
  from prod c1 c3 c2 c6 c7 c8 c9 c10 c11 c4 c5 show ?thesis by (intro conjI)
qed

lemma third_field_height:
  "jmul (jsub (Fin (6004799503160661 / 2 ^ 54)) (Fin 0)) (num_of_nat 170)
     = Fin (7975124340135253 / 2 ^ 47)"
proof -
  have a: "fl (6004799503160661 / 2 ^ 54) = Fin (6004799503160661 / 2 ^ 54)"
    by (subst fl_eval[where k = "- 2"]) (simp_all add: fl_eval_simps)
  have b: "fl (6004799503160661 / 2 ^ 54 * 170) = Fin (7975124340135253 / 2 ^ 47)"
    by (subst fl_eval[where k = 5]) (simp_all add: fl_eval_simps)
  show ?thesis using a b by (simp add: jsub_def num_of_nat_def)
qed

lemma fontSize_third: "fontSize (Fin (7975124340135253 / 2 ^ 47)) = Fin 34"
proof -
  have "fl (7975124340135253 / 2 ^ 47 * (5404319552844595 / 2 ^ 53)) = Fin 34"
    by (subst fl_eval[where k = 5]) (simp_all add: fl_eval_simps)
  then show ?thesis unfolding fontSize_def fl_six_tenths by simp
qed

lemma drawField_third:
  "drawField env 200 170 third_field =
     [SetFillStyle ''#000000'', SetFont (Fin 34), SetTextBaseline ''middle'',
      FillText ''Ada'' (Fin 5) (Fin (7975124340135253 / 2 ^ 48)) (Fin 90)]"
proof -
  have ints: "fl 100 = Fin 100" "fl 5 = Fin 5" "fl 90 = Fin 90"
    by (subst fl_eval[where k = 6], simp_all add: fl_eval_simps,
        subst fl_eval[where k = 2], simp_all add: fl_eval_simps,
        subst fl_eval[where k = 6], simp_all add: fl_eval_simps)
  have half: "fl (1 / 2) = Fin (1 / 2)"
    by (subst fl_eval[where k = "- 1"]) (simp_all add: fl_eval_simps)
  have mid: "fl (7975124340135253 / 2 ^ 47 / 2) = Fin (7975124340135253 / 2 ^ 48)"
    by (subst fl_eval[where k = 4]) (simp_all add: fl_eval_simps)
  have h: "jmul (jsub (Fin (6004799503160661 / 18014398509481984)) (Fin 0)) (num_of_nat 170)
     = Fin (7975124340135253 / 140737488355328)"
    using third_field_height by simp
  have fs: "fontSize (Fin (7975124340135253 / 140737488355328)) = Fin 34"
    using fontSize_third by simp
  have w: "jmul (jsub (Fin (1 / 2)) (Fin 0)) (num_of_nat 200) = Fin 100"
    using half ints by (simp add: jsub_def num_of_nat_def)
  show ?thesis
    using ints half mid
    by (simp add: drawField_def third_field_def entry_def Let_def h fs w)
       (simp add: num_of_nat_def jsub_def)
qed

text \<open>
  C9, where the exact formula fails: on a page of 200 by 170 pixels, a text field with the
  bounding box \<open>[0, 0, 0.3333333333333333, 0.5]\<close> has the height \<open>56.666666666666664\<close>.
  The code sets the font size 34, since the binary64 product \<open>h * 0.6\<close> rounds up to 34, while
  \<open>clamp (floor (6 / 10 * h)) 12 60\<close> is 33, for the height the code computes and for the
  exact height of the box.
\<close>

theorem C9_size_above_exact_floor:
  "fst (snd (handleDownloadFilledDoc page_200_170 (Some ''blob:scan'') (store_of [third_field]))) =
     [SetCanvasSize 200 170, DrawBase,
      SetFillStyle ''#000000'', SetFont (Fin 34), SetTextBaseline ''middle'',
      FillText ''Ada'' (Fin 5) (Fin (7975124340135253 / 2 ^ 48)) (Fin 90)]
   \<and> boundingBox third_field = Some [Fin 0, Fin 0, Fin (6004799503160661 / 2 ^ 54), Fin (1 / 2)]
   \<and> jmul (jsub (Fin (6004799503160661 / 2 ^ 54)) (Fin 0)) (num_of_nat 170)
       = Fin (7975124340135253 / 2 ^ 47)
   \<and> fontSize (Fin (7975124340135253 / 2 ^ 47)) = Fin 34
   \<and> clamp \<lfloor>6 / 10 * (7975124340135253 / 2 ^ 47 :: rat)\<rfloor> 12 60 = 33
   \<and> clamp \<lfloor>6 / 10 * ((6004799503160661 / 2 ^ 54 - 0) * 170 :: rat)\<rfloor> 12 60 = 33"
proof -
  have "fst (snd (handleDownloadFilledDoc page_200_170 (Some ''blob:scan'')
                    (store_of [third_field]))) =
     [SetCanvasSize 200 170, DrawBase] @ drawField page_200_170 200 170 third_field"
    by (simp add: handleDownloadFilledDoc_def tryGenerate_def page_200_170_def store_of_def
        Let_def)
  then have "fst (snd (handleDownloadFilledDoc page_200_170 (Some ''blob:scan'')
                    (store_of [third_field]))) =
     [SetCanvasSize 200 170, DrawBase,
      SetFillStyle ''#000000'', SetFont (Fin 34), SetTextBaseline ''middle'',
      FillText ''Ada'' (Fin 5) (Fin (7975124340135253 / 2 ^ 48)) (Fin 90)]"
    unfolding drawField_third by simp
  moreover have "boundingBox third_field
      = Some [Fin 0, Fin 0, Fin (6004799503160661 / 2 ^ 54), Fin (1 / 2)]"
    by (simp add: third_field_def)
  moreover have "clamp \<lfloor>6 / 10 * (7975124340135253 / 2 ^ 47 :: rat)\<rfloor> 12 60 = 33"
    by (simp add: clamp_def floor_rat_numeral)
  moreover have "clamp \<lfloor>6 / 10 * ((6004799503160661 / 2 ^ 54 - 0) * 170 :: rat)\<rfloor> 12 60 = 33"
    by (simp add: clamp_def floor_rat_numeral)
  ultimately show ?thesis
    using third_field_height fontSize_third by (intro conjI)
qed

section \<open>Completion rate\<close>

lemma completionRate_none_filled:
  assumes "0 < length (requiredFields fs)" and "filledRequired fs = 0"
  shows "completionRate fs = Fin 0"
proof -
  have "\<lfloor>1 / 2 :: rat\<rfloor> = 0" by (simp add: floor_eq_iff)
  then show ?thesis using assms by (simp add: completionRate_def num_of_nat_def)
qed

text \<open>
  C10: fields whose status is \<open>uncertain\<close> have no influence on validation: the offending
  list and the message are those of the field list without them.  They are not counted as
  complete either: for the field list made of one required field with status \<open>uncertain\<close>,
  \<open>handleSave\<close> reports success while \<open>completionRate\<close> is 0, below 100.
\<close>

theorem C10_uncertain_required_field:
  "stillMissing (filter (\<lambda>f. status f \<noteq> Uncertain) fs) = stillMissing fs
   \<and> saveMessage (handleSave (store_of (filter (\<lambda>f. status f \<noteq> Uncertain) fs))) =
       saveMessage (handleSave (store_of fs))
   \<and> saveMessage (handleSave (store_of [plain_field ''dob'' ''1990'' Uncertain True])) =
       Some (Success, ''Form validated and saved successfully!'')
   \<and> completionRate [plain_field ''dob'' ''1990'' Uncertain True] = Fin 0
   \<and> jlt (completionRate [plain_field ''dob'' ''1990'' Uncertain True]) (Fin 100)"
proof -
  have sm: "stillMissing (filter (\<lambda>f. status f \<noteq> Uncertain) fs) = stillMissing fs"
    unfolding stillMissing_def filter_filter by (rule filter_cong) auto
  have c0: "completionRate [plain_field ''dob'' ''1990'' Uncertain True] = Fin 0"
    by (rule completionRate_none_filled)
       (simp_all add: requiredFields_def filledRequired_def plain_field_def)
  have "saveMessage (handleSave (store_of (filter (\<lambda>f. status f \<noteq> Uncertain) fs))) =
       saveMessage (handleSave (store_of fs))"
    by (simp add: handleSave_def store_of_def sm Let_def)
  moreover have "saveMessage (handleSave (store_of [plain_field ''dob'' ''1990'' Uncertain True])) =
       Some (Success, ''Form validated and saved successfully!'')"
    by (simp add: handleSave_def store_of_def stillMissing_def plain_field_def Let_def)
  ultimately show ?thesis using sm c0 by simp
qed

section \<open>Completion rate: rounding\<close>
















section \<open>Overlay compositor: fitting an image into its box\<close>

lemma box_quotient:
  fixes w :: rat and n :: nat
  assumes "1 / 2 ^ 900 \<le> w" "w \<le> 2 ^ 900" "0 < n" "n < 2 ^ 32"
  shows "\<exists>s. jdiv (Fin w) (num_of_nat n) = Fin s
           \<and> \<bar>s - w / rat_of_nat n\<bar> \<le> (w / rat_of_nat n) / 2 ^ 53
           \<and> (w \<le> rat_of_nat n \<longrightarrow> s \<le> 1)
           \<and> 1 / 2 ^ 932 \<le> w / rat_of_nat n \<and> w / rat_of_nat n \<le> w"
proof -
  define q where "q = w / rat_of_nat n"
  have w0: "0 < w"
  proof -
    have "(0::rat) < 1 / 2 ^ 900" by simp
    with assms(1) show ?thesis by linarith
  qed
  have n1: "1 \<le> rat_of_nat n" using assms(3) by simp
  have "rat_of_nat n < 2 ^ 32" using assms(4)
    by (metis of_nat_less_numeral_power_cancel_iff)
  then have n32: "rat_of_nat n \<le> 2 ^ 32" by simp
  have "w / 2 ^ 32 \<le> q" unfolding q_def
    using w0 n1 n32 by (intro divide_left_mono) simp_all
  moreover have "(1 / 2 ^ 900) / 2 ^ 32 \<le> w / 2 ^ 32"
    using assms(1) by (intro divide_right_mono) simp_all
  moreover have "(1 / 2 ^ 900) / 2 ^ 32 = 1 / (2::rat) ^ 932" by simp
  ultimately have qlo: "1 / 2 ^ 932 \<le> q" by linarith
  have qhi: "q \<le> w" unfolding q_def
    using w0 n1 by (simp add: field_simps)
  have q0: "0 < q" unfolding q_def using w0 n1 by simp
  have "1 / (2::rat) ^ 1000 \<le> 1 / 2 ^ 932" by simp
  with qlo q0 have a: "1 / 2 ^ 1000 \<le> \<bar>q\<bar>" by linarith
  have "(2::rat) ^ 900 \<le> 2 ^ 1000" by simp
  with qhi assms(2) q0 have b: "\<bar>q\<bar> \<le> 2 ^ 1000" by linarith
  from fl_normal[OF a b] obtain s where s: "fl q = Fin s" "\<bar>s - q\<bar> \<le> \<bar>q\<bar> / 2 ^ 53" by blast
  have eq: "jdiv (Fin w) (num_of_nat n) = Fin s"
    using assms(3) s(1) by (simp add: num_of_nat_def q_def)
  have "s \<le> 1" if "w \<le> rat_of_nat n"
  proof -
    from that have "q \<le> rat_of_nat 1" unfolding q_def using n1 by (simp add: field_simps)
    from fl_le_nat[OF less_imp_le[OF q0] this] s(1) show ?thesis by auto
  qed
  with eq s(2) q0 qlo qhi show ?thesis unfolding q_def by (intro exI[of _ s]) simp
qed


lemma Math_min_Fin: "Math_min (Fin a) (Fin b) = Fin (min a b)"
  by (simp add: Math_min_def min_def)

lemma scale_fit:
  fixes w h :: rat and nw nh :: nat
  assumes "1 / 2 ^ 900 \<le> w" "w \<le> 2 ^ 900" "1 / 2 ^ 900 \<le> h" "h \<le> 2 ^ 900"
    and "0 < nw" "nw < 2 ^ 32" "0 < nh" "nh < 2 ^ 32"
  shows "\<exists>s. scale (Fin w) (Fin h) nw nh = Fin s
           \<and> \<bar>s - min (w / rat_of_nat nw) (h / rat_of_nat nh)\<bar>
               \<le> min (w / rat_of_nat nw) (h / rat_of_nat nh) / 2 ^ 53
           \<and> (w \<le> rat_of_nat nw \<or> h \<le> rat_of_nat nh \<longrightarrow> s \<le> 1)
           \<and> 1 / 2 ^ 933 \<le> s
           \<and> s \<le> (w / rat_of_nat nw) * (1 + 1 / 2 ^ 53)
           \<and> s \<le> (h / rat_of_nat nh) * (1 + 1 / 2 ^ 53)"
proof -
  define q1 where "q1 = w / rat_of_nat nw"
  define q2 where "q2 = h / rat_of_nat nh"
  from box_quotient[OF assms(1,2,5,6)] obtain s1 where
    s1: "jdiv (Fin w) (num_of_nat nw) = Fin s1" "\<bar>s1 - q1\<bar> \<le> q1 / 2 ^ 53"
        "w \<le> rat_of_nat nw \<longrightarrow> s1 \<le> 1" "1 / 2 ^ 932 \<le> q1"
    unfolding q1_def by blast
  from box_quotient[OF assms(3,4,7,8)] obtain s2 where
    s2: "jdiv (Fin h) (num_of_nat nh) = Fin s2" "\<bar>s2 - q2\<bar> \<le> q2 / 2 ^ 53"
        "h \<le> rat_of_nat nh \<longrightarrow> s2 \<le> 1" "1 / 2 ^ 932 \<le> q2"
    unfolding q2_def by blast
  have eq: "scale (Fin w) (Fin h) nw nh = Fin (min s1 s2)"
    by (simp add: scale_def s1(1) s2(1) Math_min_Fin)
  have pw: "(2::rat) ^ 53 = 9007199254740992" by simp
  have b1: "q1 - q1 / 9007199254740992 \<le> s1" "s1 \<le> q1 + q1 / 9007199254740992"
    using s1(2) unfolding pw by linarith+
  have b2: "q2 - q2 / 9007199254740992 \<le> s2" "s2 \<le> q2 + q2 / 9007199254740992"
    using s2(2) unfolding pw by linarith+
  have near: "\<bar>min s1 s2 - min q1 q2\<bar> \<le> min q1 q2 / 2 ^ 53"
    unfolding pw using b1 b2 by linarith
  have le1: "w \<le> rat_of_nat nw \<or> h \<le> rat_of_nat nh \<longrightarrow> min s1 s2 \<le> 1"
    using s1(3) s2(3) by auto
  have p933: "1 / (2::rat) ^ 933 = (1 / 2 ^ 932) / 2" by simp
  have "q1 / 2 \<le> s1" "q2 / 2 \<le> s2" using b1(1) b2(1) s1(4) s2(4) by simp_all
  then have low: "1 / 2 ^ 933 \<le> min s1 s2"
    unfolding p933 using s1(4) s2(4) by (simp add: min_def)
  have up1: "min s1 s2 \<le> q1 * (1 + 1 / 2 ^ 53)"
    unfolding pw using b1(2) by (simp add: min_def field_simps)
  have up2: "min s1 s2 \<le> q2 * (1 + 1 / 2 ^ 53)"
    unfolding pw using b2(2) by (simp add: min_def field_simps)
  from eq near le1 low up1 up2 show ?thesis
    unfolding q1_def q2_def by (intro exI[of _ "min s1 s2"]) simp
qed


lemma draw_size:
  fixes s c :: rat and n :: nat
  assumes "1 / 2 ^ 933 \<le> s" "s \<le> (c / rat_of_nat n) * (1 + 1 / 2 ^ 53)"
    and "0 < c" "c \<le> 2 ^ 900" "0 < n"
  shows "\<exists>d. jmul (num_of_nat n) (Fin s) = Fin d
           \<and> \<bar>d - rat_of_nat n * s\<bar> \<le> rat_of_nat n * s / 2 ^ 53
           \<and> 0 \<le> d \<and> d \<le> 4 * c"
proof -
  define p where "p = rat_of_nat n * s"
  have n1: "1 \<le> rat_of_nat n" using assms(5) by simp
  have s0: "0 < s"
  proof -
    have "(0::rat) < 1 / 2 ^ 933" by simp
    with assms(1) show ?thesis by linarith
  qed
  have "1 * s \<le> rat_of_nat n * s" using n1 s0 by (intro mult_right_mono) simp_all
  then have ps: "s \<le> p" by (simp add: p_def)
  have "rat_of_nat n * s \<le> rat_of_nat n * ((c / rat_of_nat n) * (1 + 1 / 2 ^ 53))"
    using assms(2) by (intro mult_left_mono) simp_all
  also have "\<dots> = c * (1 + 1 / 2 ^ 53)" using n1 by simp
  finally have pc: "p \<le> c * (1 + 1 / 2 ^ 53)" by (simp add: p_def)
  have pw: "(2::rat) ^ 53 = 9007199254740992" by simp
  have pc2: "p \<le> 2 * c" using pc assms(3) unfolding pw by simp
  have "1 / (2::rat) ^ 1000 \<le> 1 / 2 ^ 933" by simp
  with assms(1) ps s0 have a: "1 / 2 ^ 1000 \<le> \<bar>p\<bar>" by linarith
  have "2 * (2::rat) ^ 900 \<le> 2 ^ 1000" by simp
  with pc2 assms(4) ps s0 have b: "\<bar>p\<bar> \<le> 2 ^ 1000" by linarith
  from fl_normal[OF a b] obtain d where d: "fl p = Fin d" "\<bar>d - p\<bar> \<le> \<bar>p\<bar> / 2 ^ 53" by blast
  have p0: "0 < p" using ps s0 by linarith
  have eq: "jmul (num_of_nat n) (Fin s) = Fin d" using d(1) by (simp add: num_of_nat_def p_def)
  have err: "\<bar>d - p\<bar> \<le> p / 2 ^ 53" using d(2) p0 by simp
  have "0 \<le> d" "d \<le> 4 * c" using err p0 pc2 unfolding pw by linarith+
  with eq err show ?thesis unfolding p_def by (intro exI[of _ d]) simp
qed

lemma eta_bounds: "0 < (2::rat) powi (- 1075)" "(2::rat) powi (- 1075) \<le> 1"
  "(2::rat) powi (- 1073) = 4 * 2 powi (- 1075)"
proof -
  show "0 < (2::rat) powi (- 1075)" by simp
  have "(2::rat) powi (- 1075) \<le> 2 powi 0" by (intro power_int_increasing) simp_all
  then show "(2::rat) powi (- 1075) \<le> 1" by simp
  have "(2::rat) powi (- 1075 + 2) = 2 powi (- 1075) * 2 powi 2"
    by (rule power_int_add) simp
  then show "(2::rat) powi (- 1073) = 4 * 2 powi (- 1075)"
    by (simp add: power_int_numeral)
qed

lemma centre_arith:
  fixes C S X T2 T1 A E D1 D2 R :: rat
  assumes "C \<le> S / 9007199254740992 + E"
    and "S \<le> X + T2"
    and "D2 \<le> T1 / 18014398509481984 + E"
    and "T2 \<le> T1 / 2 + D2"
    and "D1 \<le> A / 9007199254740992 + E"
    and "T1 \<le> A + D1"
    and "R \<le> C + (D2 + D1 / 2)"
    and "0 \<le> A" "0 \<le> X" "0 < E"
  shows "R \<le> (X + A) / 4503599627370496 + 4 * E"
proof -
  have "R \<le> X / 4503599627370496 + A / 4503599627370496 + 4 * E"
    using assms by linarith
  then show ?thesis by (simp add: add_divide_distrib)
qed

lemma centre_offset:
  fixes x w d :: rat
  assumes "\<bar>x\<bar> \<le> 2 ^ 900" "\<bar>w\<bar> \<le> 2 ^ 900" "\<bar>d\<bar> \<le> 2 ^ 902"
  shows "\<exists>c. jadd (Fin x) (jdiv (jsub (Fin w) (Fin d)) (Fin 2)) = Fin c
           \<and> \<bar>c - (x + (w - d) / 2)\<bar> \<le> (\<bar>x\<bar> + \<bar>w - d\<bar>) / 2 ^ 52 + 2 powi (- 1073)"
proof -
  define E where "E = (2::rat) powi (- 1075)"
  have E: "0 < E" "E \<le> 1" "(2::rat) powi (- 1073) = 4 * E"
    using eta_bounds by (simp_all add: E_def)
  define A where "A = \<bar>w - d\<bar>"
  have A0: "0 \<le> A" by (simp add: A_def)
  have Ab: "A \<le> 2 ^ 900 + 2 ^ 902" using assms(2,3) unfolding A_def by linarith
  have "(2::rat) ^ 900 + 2 ^ 902 < 2 ^ 1023" by simp
  with Ab have "\<bar>w - d\<bar> < 2 ^ 1023" unfolding A_def by linarith
  from fl_abs_error[OF this] obtain t1 where
    t1: "fl (w - d) = Fin t1" "\<bar>t1 - (w - d)\<bar> \<le> A / 2 ^ 53 + E"
    unfolding A_def E_def by blast
  have pw: "(2::rat) ^ 53 = 9007199254740992" "(2::rat) ^ 52 = 4503599627370496" by simp_all
  have T1: "\<bar>t1\<bar> \<le> A + \<bar>t1 - (w - d)\<bar>" unfolding A_def by linarith
  have D1: "\<bar>t1 - (w - d)\<bar> \<le> A / 9007199254740992 + E" using t1(2) unfolding pw .
  have t1c: "\<bar>t1\<bar> \<le> 2 * A + 1" using T1 D1 A0 E by linarith
  with Ab have "\<bar>t1 / 2\<bar> < 2 ^ 1023" by simp
  from fl_abs_error[OF this] obtain t2 where
    t2: "fl (t1 / 2) = Fin t2" "\<bar>t2 - t1 / 2\<bar> \<le> \<bar>t1 / 2\<bar> / 2 ^ 53 + E"
    unfolding E_def by blast
  have D2: "\<bar>t2 - t1 / 2\<bar> \<le> \<bar>t1\<bar> / 18014398509481984 + E"
    using t2(2) unfolding pw by (simp add: abs_divide)
  have T2: "\<bar>t2\<bar> \<le> \<bar>t1\<bar> / 2 + \<bar>t2 - t1 / 2\<bar>" by linarith
  have t2c: "\<bar>t2\<bar> \<le> 2 * A + 2" using T2 D2 t1c E by linarith
  have S: "\<bar>x + t2\<bar> \<le> \<bar>x\<bar> + \<bar>t2\<bar>" by (rule abs_triangle_ineq)
  with t2c Ab assms(1) have "\<bar>x + t2\<bar> < 2 ^ 1023" by simp
  from fl_abs_error[OF this] obtain c where
    c: "fl (x + t2) = Fin c" "\<bar>c - (x + t2)\<bar> \<le> \<bar>x + t2\<bar> / 2 ^ 53 + E"
    unfolding E_def by blast
  have eq: "jadd (Fin x) (jdiv (jsub (Fin w) (Fin d)) (Fin 2)) = Fin c"
    using t1(1) t2(1) c(1) by (simp add: jsub_def)
  have C: "\<bar>c - (x + t2)\<bar> \<le> \<bar>x + t2\<bar> / 9007199254740992 + E" using c(2) unfolding pw .
  have R1: "\<bar>c - (x + (w - d) / 2)\<bar> \<le> \<bar>c - (x + t2)\<bar> + \<bar>t2 - (w - d) / 2\<bar>" by linarith
  have R2: "\<bar>t2 - (w - d) / 2\<bar> \<le> \<bar>t2 - t1 / 2\<bar> + \<bar>t1 - (w - d)\<bar> / 2"
  proof -
    have "t2 - (w - d) / 2 = (t2 - t1 / 2) + (t1 - (w - d)) / 2" by (simp add: field_simps)
    then have "\<bar>t2 - (w - d) / 2\<bar> \<le> \<bar>t2 - t1 / 2\<bar> + \<bar>(t1 - (w - d)) / 2\<bar>"
      by (simp only: abs_triangle_ineq)
    then show ?thesis by (simp only: abs_divide abs_numeral)
  qed
  from R1 R2 have R: "\<bar>c - (x + (w - d) / 2)\<bar>
      \<le> \<bar>c - (x + t2)\<bar> + (\<bar>t2 - t1 / 2\<bar> + \<bar>t1 - (w - d)\<bar> / 2)" by linarith
  have "\<bar>c - (x + (w - d) / 2)\<bar> \<le> (\<bar>x\<bar> + A) / 4503599627370496 + 4 * E"
    by (rule centre_arith[OF C S D2 T2 D1 T1 R A0 _ E(1)]) simp
  with eq show ?thesis unfolding E(3) pw A_def by (intro exI[of _ c]) simp
qed


lemma aspect_ratio_kept:
  fixes dw dh s :: rat and nw nh :: nat
  assumes "\<bar>dw - rat_of_nat nw * s\<bar> \<le> rat_of_nat nw * s / 2 ^ 53"
    and "\<bar>dh - rat_of_nat nh * s\<bar> \<le> rat_of_nat nh * s / 2 ^ 53"
  shows "\<bar>dw * rat_of_nat nh - dh * rat_of_nat nw\<bar> \<le> rat_of_nat nw * rat_of_nat nh * s / 2 ^ 52"
proof -
  have "dw * rat_of_nat nh - dh * rat_of_nat nw =
      (dw - rat_of_nat nw * s) * rat_of_nat nh - (dh - rat_of_nat nh * s) * rat_of_nat nw"
    by (simp add: algebra_simps)
  then have "\<bar>dw * rat_of_nat nh - dh * rat_of_nat nw\<bar> \<le>
      \<bar>(dw - rat_of_nat nw * s) * rat_of_nat nh\<bar> + \<bar>(dh - rat_of_nat nh * s) * rat_of_nat nw\<bar>"
    by (simp only: abs_triangle_ineq4)
  also have "\<dots> = \<bar>dw - rat_of_nat nw * s\<bar> * rat_of_nat nh + \<bar>dh - rat_of_nat nh * s\<bar> * rat_of_nat nw"
    by (simp add: abs_mult)
  also have "\<dots> \<le> (rat_of_nat nw * s / 2 ^ 53) * rat_of_nat nh + (rat_of_nat nh * s / 2 ^ 53) * rat_of_nat nw"
    using assms by (intro add_mono mult_right_mono) simp_all
  also have "\<dots> = rat_of_nat nw * rat_of_nat nh * s / 2 ^ 52"
    by simp
  finally show ?thesis .
qed

text \<open>
  C5, as the code has it.  A drawn field of type image or signature is drawn by one
  \<open>drawImage\<close> call with the arguments \<open>drawX\<close>, \<open>drawY\<close>, \<open>drawW\<close>, \<open>drawH\<close>.  For a box and a
  position of magnitude between \<open>2 ^ - 900\<close> and \<open>2 ^ 900\<close> and a raster of natural size
  between 1 and \<open>2 ^ 32\<close>, all of them are finite, and up to binary64 rounding:
  the scale is the one factor \<open>min (w / naturalWidth) (h / naturalHeight)\<close>, used for both
  dimensions; it is at most 1 whenever the raster is at least as wide or at least as high
  as the box (nothing caps it otherwise); the drawn size keeps the aspect ratio of the
  raster; and the raster is centred in the box, horizontally and vertically.
\<close>

theorem C5_image_fit:
  fixes x y w h :: rat and naturalWidth naturalHeight :: nat
  assumes "\<bar>x\<bar> \<le> 2 ^ 900" and "\<bar>y\<bar> \<le> 2 ^ 900"
    and "1 / 2 ^ 900 \<le> w" and "w \<le> 2 ^ 900" and "1 / 2 ^ 900 \<le> h" and "h \<le> 2 ^ 900"
    and "0 < naturalWidth" and "naturalWidth < 2 ^ 32"
    and "0 < naturalHeight" and "naturalHeight < 2 ^ 32"
  shows "(boundingBox f = Some bb \<and> value f \<noteq> [] \<and> status f \<noteq> Skipped
      \<and> (type f = TImage \<or> type f = TSignature) \<longrightarrow>
      drawField env width height f =
        [DrawImage (value f)
           (drawX (jmul (entry bb 1) (num_of_nat width))
                  (jmul (jsub (entry bb 3) (entry bb 1)) (num_of_nat width))
                  (jmul (jsub (entry bb 2) (entry bb 0)) (num_of_nat height))
                  (fst (loadField env (value f))) (snd (loadField env (value f))))
           (drawY (jmul (entry bb 0) (num_of_nat height))
                  (jmul (jsub (entry bb 3) (entry bb 1)) (num_of_nat width))
                  (jmul (jsub (entry bb 2) (entry bb 0)) (num_of_nat height))
                  (fst (loadField env (value f))) (snd (loadField env (value f))))
           (drawW (jmul (jsub (entry bb 3) (entry bb 1)) (num_of_nat width))
                  (jmul (jsub (entry bb 2) (entry bb 0)) (num_of_nat height))
                  (fst (loadField env (value f))) (snd (loadField env (value f))))
           (drawH (jmul (jsub (entry bb 3) (entry bb 1)) (num_of_nat width))
                  (jmul (jsub (entry bb 2) (entry bb 0)) (num_of_nat height))
                  (fst (loadField env (value f))) (snd (loadField env (value f))))])
    \<and> (\<exists>s dw dh dx dy.
      scale (Fin w) (Fin h) naturalWidth naturalHeight = Fin s
    \<and> drawW (Fin w) (Fin h) naturalWidth naturalHeight = Fin dw
    \<and> drawH (Fin w) (Fin h) naturalWidth naturalHeight = Fin dh
    \<and> drawX (Fin x) (Fin w) (Fin h) naturalWidth naturalHeight = Fin dx
    \<and> drawY (Fin y) (Fin w) (Fin h) naturalWidth naturalHeight = Fin dy
    \<and> \<bar>s - min (w / rat_of_nat naturalWidth) (h / rat_of_nat naturalHeight)\<bar>
        \<le> min (w / rat_of_nat naturalWidth) (h / rat_of_nat naturalHeight) / 2 ^ 53
    \<and> (w \<le> rat_of_nat naturalWidth \<or> h \<le> rat_of_nat naturalHeight \<longrightarrow> s \<le> 1)
    \<and> \<bar>dw - rat_of_nat naturalWidth * s\<bar> \<le> rat_of_nat naturalWidth * s / 2 ^ 53
    \<and> \<bar>dh - rat_of_nat naturalHeight * s\<bar> \<le> rat_of_nat naturalHeight * s / 2 ^ 53
    \<and> \<bar>dw * rat_of_nat naturalHeight - dh * rat_of_nat naturalWidth\<bar>
        \<le> rat_of_nat naturalWidth * rat_of_nat naturalHeight * s / 2 ^ 52
    \<and> \<bar>dx - (x + (w - dw) / 2)\<bar> \<le> (\<bar>x\<bar> + \<bar>w - dw\<bar>) / 2 ^ 52 + 2 powi (- 1073)
    \<and> \<bar>dy - (y + (h - dh) / 2)\<bar> \<le> (\<bar>y\<bar> + \<bar>h - dh\<bar>) / 2 ^ 52 + 2 powi (- 1073))"
proof -
  have w0: "0 < w" and h0: "0 < h"
  proof -
    have "(0::rat) < 1 / 2 ^ 900" by simp
    with assms(3,5) show "0 < w" "0 < h" by linarith+
  qed
  from scale_fit[OF assms(3,4,5,6,7,8,9,10)] obtain s where
    s: "scale (Fin w) (Fin h) naturalWidth naturalHeight = Fin s"
       "\<bar>s - min (w / rat_of_nat naturalWidth) (h / rat_of_nat naturalHeight)\<bar>
          \<le> min (w / rat_of_nat naturalWidth) (h / rat_of_nat naturalHeight) / 2 ^ 53"
       "w \<le> rat_of_nat naturalWidth \<or> h \<le> rat_of_nat naturalHeight \<longrightarrow> s \<le> 1"
       "1 / 2 ^ 933 \<le> s"
       "s \<le> (w / rat_of_nat naturalWidth) * (1 + 1 / 2 ^ 53)"
       "s \<le> (h / rat_of_nat naturalHeight) * (1 + 1 / 2 ^ 53)"
    by blast
  from draw_size[OF s(4) s(5) w0 assms(4) assms(7)] obtain dw where
    dw: "jmul (num_of_nat naturalWidth) (Fin s) = Fin dw"
        "\<bar>dw - rat_of_nat naturalWidth * s\<bar> \<le> rat_of_nat naturalWidth * s / 2 ^ 53"
        "0 \<le> dw" "dw \<le> 4 * w"
    by blast
  from draw_size[OF s(4) s(6) h0 assms(6) assms(9)] obtain dh where
    dh: "jmul (num_of_nat naturalHeight) (Fin s) = Fin dh"
        "\<bar>dh - rat_of_nat naturalHeight * s\<bar> \<le> rat_of_nat naturalHeight * s / 2 ^ 53"
        "0 \<le> dh" "dh \<le> 4 * h"
    by blast
  have eW: "drawW (Fin w) (Fin h) naturalWidth naturalHeight = Fin dw"
    and eH: "drawH (Fin w) (Fin h) naturalWidth naturalHeight = Fin dh"
    by (simp_all add: drawW_def drawH_def s(1) dw(1) dh(1))
  have p902: "4 * (2::rat) ^ 900 = 2 ^ 902" by simp
  have "\<bar>w\<bar> \<le> 2 ^ 900" "\<bar>h\<bar> \<le> 2 ^ 900" using w0 h0 assms(4,6) by simp_all
  moreover have "\<bar>dw\<bar> \<le> 2 ^ 902" "\<bar>dh\<bar> \<le> 2 ^ 902"
    using dw(3,4) dh(3,4) assms(4,6) p902 by linarith+
  ultimately obtain dx dy where
    dx: "jadd (Fin x) (jdiv (jsub (Fin w) (Fin dw)) (Fin 2)) = Fin dx"
        "\<bar>dx - (x + (w - dw) / 2)\<bar> \<le> (\<bar>x\<bar> + \<bar>w - dw\<bar>) / 2 ^ 52 + 2 powi (- 1073)"
    and dy: "jadd (Fin y) (jdiv (jsub (Fin h) (Fin dh)) (Fin 2)) = Fin dy"
        "\<bar>dy - (y + (h - dh) / 2)\<bar> \<le> (\<bar>y\<bar> + \<bar>h - dh\<bar>) / 2 ^ 52 + 2 powi (- 1073)"
    using centre_offset[OF assms(1), of w dw] centre_offset[OF assms(2), of h dh] by blast
  have eX: "drawX (Fin x) (Fin w) (Fin h) naturalWidth naturalHeight = Fin dx"
    and eY: "drawY (Fin y) (Fin w) (Fin h) naturalWidth naturalHeight = Fin dy"
    by (simp_all add: drawX_def drawY_def eW eH dx(1) dy(1))
  note ar = aspect_ratio_kept[OF dw(2) dh(2)]
  have link: "boundingBox f = Some bb \<and> value f \<noteq> [] \<and> status f \<noteq> Skipped
      \<and> (type f = TImage \<or> type f = TSignature) \<longrightarrow>
      drawField env width height f =
        [DrawImage (value f)
           (drawX (jmul (entry bb 1) (num_of_nat width))
                  (jmul (jsub (entry bb 3) (entry bb 1)) (num_of_nat width))
                  (jmul (jsub (entry bb 2) (entry bb 0)) (num_of_nat height))
                  (fst (loadField env (value f))) (snd (loadField env (value f))))
           (drawY (jmul (entry bb 0) (num_of_nat height))
                  (jmul (jsub (entry bb 3) (entry bb 1)) (num_of_nat width))
                  (jmul (jsub (entry bb 2) (entry bb 0)) (num_of_nat height))
                  (fst (loadField env (value f))) (snd (loadField env (value f))))
           (drawW (jmul (jsub (entry bb 3) (entry bb 1)) (num_of_nat width))
                  (jmul (jsub (entry bb 2) (entry bb 0)) (num_of_nat height))
                  (fst (loadField env (value f))) (snd (loadField env (value f))))
           (drawH (jmul (jsub (entry bb 3) (entry bb 1)) (num_of_nat width))
                  (jmul (jsub (entry bb 2) (entry bb 0)) (num_of_nat height))
                  (fst (loadField env (value f))) (snd (loadField env (value f))))]"
    by (auto simp add: drawField_def Let_def split: prod.splits)
  show ?thesis
    using s(1) eW eH eX eY s(2) s(3) dw(2) dh(2) ar dx(2) dy(2)
    by (intro conjI[OF link] exI[of _ s] exI[of _ dw] exI[of _ dh] exI[of _ dx] exI[of _ dy] conjI)
qed


lemma fl_of_nat:
  assumes "n < 2 ^ 53"
  shows "fl (rat_of_nat n) = Fin (rat_of_nat n)"
proof (cases "n = 0")
  case True
  then show ?thesis by simp
next
  case False
  define q where "q = rat_of_nat n"
  have qn: "q \<noteq> 0" and q1: "1 \<le> q" and qa: "\<bar>q\<bar> = q" using False by (simp_all add: q_def)
  then have q0: "0 < \<bar>q\<bar>" by simp
  define k where "k = ilog2 \<bar>q\<bar>"
  define e where "e = max (k - 52) (- 1074)"
  have "rat_of_nat n < 2 ^ 53" using assms
    by (metis of_nat_less_numeral_power_cancel_iff)
  then have q53: "q < 2 powi 53" by (simp add: q_def power_int_numeral)
  have "(2::rat) powi k < 2 powi 53"
    using ilog2_bounds(1)[OF q0] q53 qa by (simp add: k_def)
  then have "k < 53"
    by (metis power_int_increasing not_less one_le_numeral)
  moreover have "(2::rat) powi 0 < 2 powi (k + 1)"
    using ilog2_bounds(2)[OF q0] q1 qa by (simp add: k_def)
  then have "0 < k + 1"
    by (metis power_int_increasing not_less one_le_numeral)
  ultimately have e0: "e \<le> 0" and ek: "e = k - 52" by (simp_all add: e_def)
  have pw: "(2::rat) powi e = 1 / 2 ^ nat (- e)"
    using e0 by (simp add: power_int_def field_simps)
  have "q / 2 powi e = rat_of_int (int n * 2 ^ nat (- e))"
    by (simp add: pw q_def)
  then have "rat_of_int (rne (q / 2 powi e)) * 2 powi e = rat_of_int (int n * 2 ^ nat (- e)) * 2 powi e"
    by (simp only: rne_of_int)
  also have "\<dots> = q" by (simp add: pw q_def)
  finally have r: "rat_of_int (rne (q / 2 powi e)) * 2 powi e = q" .
  have "(2::rat) ^ 53 < 2 ^ 1023" by simp
  with \<open>rat_of_nat n < 2 ^ 53\<close> have "\<bar>q\<bar> < 2 ^ 1023" unfolding qa q_def by linarith
  from fl_error_gen[OF qn this, THEN conjunct1] have "fl q = Fin q"
    unfolding k_def[symmetric] e_def[symmetric] r .
  then show ?thesis by (simp add: q_def)
qed

lemma fl_small_numeral [simp]:
  "numeral v < (2::nat) ^ 53 \<Longrightarrow> fl (numeral v) = Fin (numeral v)"
  using fl_of_nat[of "numeral v"] by simp

lemma fl_half: "fl (1 / 2) = Fin (1 / 2)"
  by (subst fl_eval[where k = "- 1"]) (simp_all add: fl_eval_simps)

lemma fl_75_halves: "fl (75 / 2) = Fin (75 / 2)"
  by (subst fl_eval[where k = 5]) (simp_all add: fl_eval_simps)

text \<open>
  C5 as stated fails: the scale exceeds 1.0 when the box is larger than the raster in both
  dimensions.  A signature of natural size 50 by 50 in a box of 100 by 100 pixels is scaled
  by 2 and drawn 100 by 100.
\<close>

theorem C5_scale_above_one:
  "scale (Fin 100) (Fin 100) 50 50 = Fin 2
   \<and> jlt (Fin 1) (scale (Fin 100) (Fin 100) 50 50)
   \<and> loadField small_images ''signature.png'' = (50, 50)
   \<and> drawField small_images 200 200 (boxed_field ''sig'' ''signature.png'' TSignature Filled) =
       [DrawImage ''signature.png'' (Fin 0) (Fin 0) (Fin 100) (Fin 100)]"
proof -
  have sc: "scale (Fin 100) (Fin 100) 50 50 = Fin 2"
    by (simp add: scale_def num_of_nat_def Math_min_Fin)
  have dW: "drawW (Fin 100) (Fin 100) 50 50 = Fin 100" "drawH (Fin 100) (Fin 100) 50 50 = Fin 100"
    by (simp_all add: drawW_def drawH_def sc num_of_nat_def)
  have dX: "drawX (Fin 0) (Fin 100) (Fin 100) 50 50 = Fin 0"
    "drawY (Fin 0) (Fin 100) (Fin 100) 50 50 = Fin 0"
    by (simp_all add: drawX_def drawY_def dW jsub_def)
  have box: "jmul (Fin 0) (num_of_nat 200) = Fin 0"
    "jmul (jsub (Fin (1 / 2)) (Fin 0)) (num_of_nat 200) = Fin 100"
    by (simp_all add: num_of_nat_def jsub_def fl_half)
  have "drawField small_images 200 200 (boxed_field ''sig'' ''signature.png'' TSignature Filled) =
       [DrawImage ''signature.png'' (Fin 0) (Fin 0) (Fin 100) (Fin 100)]"
    by (simp add: drawField_def boxed_field_def small_images_def entry_def box dX dW Let_def)
  then show ?thesis using sc by (simp add: small_images_def)
qed

theorem C5_image_fit_witness:
  "scale (Fin 100) (Fin 100) 200 50 = Fin (1 / 2)
   \<and> drawW (Fin 100) (Fin 100) 200 50 = Fin 100
   \<and> drawH (Fin 100) (Fin 100) 200 50 = Fin 25
   \<and> drawX (Fin 0) (Fin 100) (Fin 100) 200 50 = Fin 0
   \<and> drawY (Fin 0) (Fin 100) (Fin 100) 200 50 = Fin (75 / 2)
   \<and> (\<exists>s. scale (Fin 100) (Fin 100) 200 50 = Fin s \<and> s \<le> 1)
   \<and> drawField wide_images 200 200 (boxed_field ''photo'' ''photo.png'' TImage Filled) =
       [DrawImage ''photo.png'' (Fin 0) (Fin (75 / 2)) (Fin 100) (Fin 25)]"
proof -
  have sc: "scale (Fin 100) (Fin 100) 200 50 = Fin (1 / 2)"
    by (simp add: scale_def num_of_nat_def Math_min_Fin fl_half)
  have dW: "drawW (Fin 100) (Fin 100) 200 50 = Fin 100" "drawH (Fin 100) (Fin 100) 200 50 = Fin 25"
    by (simp_all add: drawW_def drawH_def sc num_of_nat_def)
  have dX: "drawX (Fin 0) (Fin 100) (Fin 100) 200 50 = Fin 0"
    "drawY (Fin 0) (Fin 100) (Fin 100) 200 50 = Fin (75 / 2)"
    by (simp_all add: drawX_def drawY_def dW jsub_def fl_75_halves)
  have box: "jmul (Fin 0) (num_of_nat 200) = Fin 0"
    "jmul (jsub (Fin (1 / 2)) (Fin 0)) (num_of_nat 200) = Fin 100"
    by (simp_all add: num_of_nat_def jsub_def fl_half)
  note t = C5_image_fit[where x = 0 and y = 0 and w = 100 and h = 100
      and naturalWidth = 200 and naturalHeight = 50
      and f = "boxed_field ''photo'' ''photo.png'' TImage Filled"
      and bb = "[Fin 0, Fin 0, Fin (1 / 2), Fin (1 / 2)]"
      and env = wide_images and width = 200 and height = 200]
  have "\<exists>s. scale (Fin 100) (Fin 100) 200 50 = Fin s \<and> s \<le> 1"
    using t by fastforce
  moreover have "drawField wide_images 200 200 (boxed_field ''photo'' ''photo.png'' TImage Filled) =
       [DrawImage ''photo.png'' (Fin 0) (Fin (75 / 2)) (Fin 100) (Fin 25)]"
    using t[THEN conjunct1]
    by (simp add: boxed_field_def wide_images_def entry_def box dX dW)
  ultimately show ?thesis using sc dW dX by blast
qed

end
